theory Spec2Isabelle
  imports Complex_Main "HOL-Library.Word"
begin

unbundle bit_operations_syntax

section \<open>Values shared by the model\<close>

text \<open>
  The program is the single file \<^verbatim>\<open>2FA.py\<close>. A Python \<open>str\<close> that reaches the program
  from outside (an entry field, a JSON file) is a list of Unicode code points, each a
  natural number: \<open>utext\<close>. Text that the program builds itself (bit strings, decimal
  digits, the word \<open>ERROR\<close>) is ASCII and is written as a \<open>string\<close>. Python \<open>bytes\<close> are
  lists of 8-bit words, Python integers are \<open>int\<close> (or \<open>nat\<close> where they count something),
  and the clock reading \<^verbatim>\<open>time.time()\<close> is a real number. Exceptions are values of
  \<open>py_error\<close>, carried in the left summand of a result.
\<close>

type_synonym byte = "8 word"
type_synonym u32 = "32 word"
type_synonym utext = "nat list"

definition ascii :: "string \<Rightarrow> utext" where
  "ascii s = map of_char s"

datatype py_error =
    InvalidBase32Character nat
  | SubstringNotFound
  | InvalidLiteral
  | ZeroDivisionError
  | StructError
  | AttributeError
  | TypeError
  | KeyError

section \<open>Base32 decoding: \<open>TOTPGenerator.base32_decode\<close>\<close>

text \<open>
  \<^verbatim>\<open>str.upper()\<close> replaces every character by its full Unicode upper-case mapping,
  which can be several characters (U+00DF becomes \<open>SS\<close>). On ASCII it maps \<open>a..z\<close> to
  \<open>A..Z\<close> and leaves the rest alone. For the characters from 128 on, the mapping is
  Unicode's table, which is not in the repository: it is the parameter \<open>uc\<close> of the
  model, and nothing is assumed of it.
\<close>

definition upper_char :: "(nat \<Rightarrow> utext) \<Rightarrow> nat \<Rightarrow> utext" where
  "upper_char uc c =
     (if c < 128 then (if 97 \<le> c \<and> c \<le> 122 then [c - 32] else [c]) else uc c)"

definition upper :: "(nat \<Rightarrow> utext) \<Rightarrow> utext \<Rightarrow> utext" where
  "upper uc s = concat (map (upper_char uc) s)"

text \<open>
  Two tables for concrete runs: one that leaves every character from 128 on alone, and
  one that also knows U+00DF, whose upper case is \<open>SS\<close>.
\<close>

definition uc_plain :: "nat \<Rightarrow> utext" where
  "uc_plain c = [c]"

definition uc_sharp_s :: "nat \<Rightarrow> utext" where
  "uc_sharp_s c = (if c = 223 then ascii ''SS'' else [c])"

text \<open>\<^verbatim>\<open>s.replace(c, '')\<close> for a one-character pattern \<open>c\<close>.\<close>

definition remove_char :: "nat \<Rightarrow> utext \<Rightarrow> utext" where
  "remove_char c s = filter (\<lambda>x. x \<noteq> c) s"

definition base32_chars :: utext where
  "base32_chars = ascii ''ABCDEFGHIJKLMNOPQRSTUVWXYZ234567''"

text \<open>
  The validity loop: the first character that is not in \<open>base32_chars\<close> raises
  \<^verbatim>\<open>ValueError(f"Invalid Base32 character: {char}")\<close>.
\<close>

fun check_chars :: "utext \<Rightarrow> py_error + unit" where
  "check_chars [] = Inr ()"
| "check_chars (c # cs) =
     (if c \<notin> set base32_chars then Inl (InvalidBase32Character c) else check_chars cs)"

text \<open>\<^verbatim>\<open>str.index\<close>: the position of the first occurrence, \<open>ValueError\<close> when there is none.\<close>

fun str_index :: "utext \<Rightarrow> nat \<Rightarrow> py_error + nat" where
  "str_index [] c = Inl SubstringNotFound"
| "str_index (x # xs) c =
     (if x = c then Inr 0
      else case str_index xs c of Inl e \<Rightarrow> Inl e | Inr i \<Rightarrow> Inr (Suc i))"

text \<open>\<^verbatim>\<open>format(n, '05b')\<close>: the binary digits of \<open>n\<close>, zero-filled to at least five.\<close>

fun bin_str :: "nat \<Rightarrow> string" where
  "bin_str n =
     (if n < 2 then [if n = 0 then CHR ''0'' else CHR ''1'']
      else bin_str (n div 2) @ [if n mod 2 = 0 then CHR ''0'' else CHR ''1''])"

declare bin_str.simps [simp del]

definition format_05b :: "nat \<Rightarrow> string" where
  "format_05b n = replicate (5 - length (bin_str n)) (CHR ''0'') @ bin_str n"

text \<open>The loop \<^verbatim>\<open>for c in secret: bits += format(base32_chars.index(c), '05b')\<close>.\<close>

fun bits_loop :: "utext \<Rightarrow> py_error + string" where
  "bits_loop [] = Inr []"
| "bits_loop (c # cs) =
     (case str_index base32_chars c of
        Inl e \<Rightarrow> Inl e
      | Inr i \<Rightarrow> (case bits_loop cs of Inl e \<Rightarrow> Inl e | Inr bits \<Rightarrow> Inr (format_05b i @ bits)))"

text \<open>\<^verbatim>\<open>int(byte, 2)\<close>, started with accumulator 0; a character other than 0 or 1 raises.\<close>

fun int_base2 :: "nat \<Rightarrow> string \<Rightarrow> py_error + nat" where
  "int_base2 acc [] = Inr acc"
| "int_base2 acc (c # cs) =
     (if c = CHR ''0'' then int_base2 (2 * acc) cs
      else if c = CHR ''1'' then int_base2 (2 * acc + 1) cs
      else Inl InvalidLiteral)"

text \<open>
  The loop \<^verbatim>\<open>for i in range(0, len(bits), 8)\<close> with the slice \<^verbatim>\<open>bits[i:i+8]\<close>; a slice
  shorter than eight characters is skipped.
\<close>

function bytes_loop :: "string \<Rightarrow> nat \<Rightarrow> py_error + byte list" where
  "bytes_loop bits i =
     (if i < length bits then
        (let byte = take 8 (drop i bits) in
         if length byte = 8 then
           (case int_base2 0 byte of
              Inl e \<Rightarrow> Inl e
            | Inr v \<Rightarrow> (case bytes_loop bits (i + 8) of
                         Inl e \<Rightarrow> Inl e
                       | Inr result \<Rightarrow> Inr (of_nat v # result)))
         else bytes_loop bits (i + 8))
      else Inr [])"
  by pat_completeness auto
termination
  by (relation "measure (\<lambda>(bits, i). length bits - i)") auto

declare bytes_loop.simps [simp del]

definition base32_decode :: "(nat \<Rightarrow> utext) \<Rightarrow> utext \<Rightarrow> py_error + byte list" where
  "base32_decode uc secret0 =
     (let secret = remove_char (of_char (CHR ''='')) (remove_char (of_char (CHR '' '')) (upper uc secret0)) in
      case check_chars secret of
        Inl e \<Rightarrow> Inl e
      | Inr _ \<Rightarrow>
          (let padding = 8 - (length secret mod 8);
               secret = (if padding \<noteq> 8 then secret @ replicate padding (of_char (CHR ''A'')) else secret)
           in case bits_loop secret of
                Inl e \<Rightarrow> Inl e
              | Inr bits \<Rightarrow> bytes_loop bits 0))"

subsection \<open>The decoder in the specification's words\<close>

text \<open>
  Uppercase the text; strip every space (code point 32) and every \<open>=\<close> (61); a character
  is in the alphabet when it is one of \<open>A..Z\<close> (65 to 90, values 0 to 25) or \<open>2..7\<close>
  (50 to 55, values 26 to 31); right-pad the symbols with the zero symbol until their
  number is a multiple of 8 (at most seven are ever added); concatenate the 5-bit
  values, most significant bit first; slice into groups of 8 bits; drop a shorter last
  group; return the bytes.
\<close>

definition symbols_of :: "(nat \<Rightarrow> utext) \<Rightarrow> utext \<Rightarrow> utext" where
  "symbols_of uc txt = filter (\<lambda>c. c \<noteq> 32 \<and> c \<noteq> 61) (upper uc txt)"

definition in_alphabet :: "nat \<Rightarrow> bool" where
  "in_alphabet c = ((65 \<le> c \<and> c \<le> 90) \<or> (50 \<le> c \<and> c \<le> 55))"

definition symbol_value :: "nat \<Rightarrow> nat" where
  "symbol_value c = (if 65 \<le> c \<and> c \<le> 90 then c - 65 else c - 24)"

fun pad_until :: "nat \<Rightarrow> nat list \<Rightarrow> nat list" where
  "pad_until 0 vs = vs"
| "pad_until (Suc k) vs = (if length vs mod 8 = 0 then vs else pad_until k (vs @ [0]))"

definition pad_to_8 :: "nat list \<Rightarrow> nat list" where
  "pad_to_8 vs = pad_until 7 vs"

definition five_bits :: "nat \<Rightarrow> bool list" where
  "five_bits v = map (\<lambda>i. odd (v div 2 ^ i)) [4, 3, 2, 1, 0]"

definition bits_value :: "bool list \<Rightarrow> nat" where
  "bits_value bs = foldl (\<lambda>acc b. 2 * acc + (if b then 1 else 0)) 0 bs"

fun chunks :: "nat \<Rightarrow> 'a list \<Rightarrow> 'a list list" where
  "chunks n [] = []"
| "chunks n (x # xs) =
     (if n = 0 then [] else take n (x # xs) # chunks n (drop n (x # xs)))"

definition decode_spec :: "(nat \<Rightarrow> utext) \<Rightarrow> utext \<Rightarrow> py_error + byte list" where
  "decode_spec uc txt =
     (let symbols = symbols_of uc txt in
      case find (\<lambda>c. \<not> in_alphabet c) symbols of
        Some c \<Rightarrow> Inl (InvalidBase32Character c)
      | None \<Rightarrow>
          (let padded = pad_to_8 (map symbol_value symbols);
               bit_string = concat (map five_bits padded);
               groups = filter (\<lambda>g. length g = 8) (chunks 8 bit_string)
           in Inr (map (of_nat \<circ> bits_value) groups)))"

text \<open>The character that stands for a bit in Python's bit string.\<close>

definition bitchar :: "bool \<Rightarrow> char" where
  "bitchar b = (if b then CHR ''1'' else CHR ''0'')"

section \<open>SHA-1 and HMAC: \<open>hashlib.sha1\<close>, \<open>hmac.new\<close>, \<open>struct.pack\<close>\<close>

text \<open>
  These are functions of Python's standard library, not of the repository. They are
  modelled by their standards: FIPS 180-4 for SHA-1, RFC 2104 for HMAC, and the big-endian
  unsigned 8-byte layout of \<^verbatim>\<open>struct.pack('>Q', n)\<close>.
\<close>

fun be_bytes :: "nat \<Rightarrow> nat \<Rightarrow> byte list" where
  "be_bytes 0 n = []"
| "be_bytes (Suc k) n = be_bytes k (n div 256) @ [of_nat (n mod 256)]"

definition be_value :: "byte list \<Rightarrow> nat" where
  "be_value bs = foldl (\<lambda>acc b. 256 * acc + unat b) 0 bs"

definition struct_pack_Q :: "int \<Rightarrow> py_error + byte list" where
  "struct_pack_Q n =
     (if 0 \<le> n \<and> n < 2 ^ 64 then Inr (be_bytes 8 (nat n)) else Inl StructError)"

definition rotl32 :: "nat \<Rightarrow> u32 \<Rightarrow> u32" where
  "rotl32 n x = push_bit n x OR drop_bit (32 - n) x"

definition be32 :: "byte list \<Rightarrow> u32" where
  "be32 bs = foldl (\<lambda>acc b. push_bit 8 acc OR ucast b) 0 bs"

definition sha1_pad :: "byte list \<Rightarrow> byte list" where
  "sha1_pad m = m @ [0x80] @ replicate ((119 - length m mod 64) mod 64) 0
                  @ be_bytes 8 (8 * length m mod 2 ^ 64)"

fun sha1_sched :: "nat \<Rightarrow> u32 list \<Rightarrow> u32 list" where
  "sha1_sched 0 win = []"
| "sha1_sched (Suc n) win =
     (let w = rotl32 1 (win ! 13 XOR win ! 8 XOR win ! 2 XOR win ! 0)
      in w # sha1_sched n (tl win @ [w]))"

definition sha1_f :: "nat \<Rightarrow> u32 \<Rightarrow> u32 \<Rightarrow> u32 \<Rightarrow> u32" where
  "sha1_f t b c d =
     (if t < 20 then (b AND c) OR (NOT b AND d)
      else if t < 40 then b XOR c XOR d
      else if t < 60 then (b AND c) OR (b AND d) OR (c AND d)
      else b XOR c XOR d)"

definition sha1_k :: "nat \<Rightarrow> u32" where
  "sha1_k t = (if t < 20 then 0x5A827999 else if t < 40 then 0x6ED9EBA1
               else if t < 60 then 0x8F1BBCDC else 0xCA62C1D6)"

type_synonym sha1_state = "u32 \<times> u32 \<times> u32 \<times> u32 \<times> u32"

fun sha1_round :: "sha1_state \<Rightarrow> nat \<times> u32 \<Rightarrow> sha1_state" where
  "sha1_round (a, b, c, d, e) (t, w) =
     (rotl32 5 a + sha1_f t b c d + e + sha1_k t + w, a, rotl32 30 b, c, d)"

fun sha1_add :: "sha1_state \<Rightarrow> sha1_state \<Rightarrow> sha1_state" where
  "sha1_add (a, b, c, d, e) (a', b', c', d', e') = (a + a', b + b', c + c', d + d', e + e')"

text \<open>
  One 64-byte block: the sixteen message words, the sixty-four words the schedule derives
  from them (over a sliding window of the last sixteen), and the eighty rounds.
\<close>

definition sha1_compress :: "sha1_state \<Rightarrow> byte list \<Rightarrow> sha1_state" where
  "sha1_compress h block =
     (let ws = map be32 (chunks 4 block);
          sched = ws @ sha1_sched 64 ws
      in sha1_add h (foldl sha1_round h (zip [0..<80] sched)))"

definition sha1_init :: sha1_state where
  "sha1_init = (0x67452301, 0xEFCDAB89, 0x98BADCFE, 0x10325476, 0xC3D2E1F0)"

definition u32_bytes :: "u32 \<Rightarrow> byte list" where
  "u32_bytes w = [ucast (drop_bit 24 w), ucast (drop_bit 16 w), ucast (drop_bit 8 w), ucast w]"

fun sha1_out :: "sha1_state \<Rightarrow> byte list" where
  "sha1_out (a, b, c, d, e) = concat (map u32_bytes [a, b, c, d, e])"

definition sha1 :: "byte list \<Rightarrow> byte list" where
  "sha1 m = sha1_out (foldl sha1_compress sha1_init (chunks 64 (sha1_pad m)))"

definition hmac_sha1 :: "byte list \<Rightarrow> byte list \<Rightarrow> byte list" where
  "hmac_sha1 key msg =
     (let k0 = (if 64 < length key then sha1 key else key);
          k = k0 @ replicate (64 - length k0) 0
      in sha1 (map (\<lambda>b. b XOR 0x5C) k @ sha1 (map (\<lambda>b. b XOR 0x36) k @ msg)))"

text \<open>
  Identity functions that mark where a word numeral is brought back below \<open>2 ^ 32\<close>
  (or \<open>2 ^ 8\<close>) while a digest is computed on concrete input.
\<close>

definition norm32 :: "u32 \<Rightarrow> u32" where
  "norm32 x = x"

definition norm8 :: "byte \<Rightarrow> byte" where
  "norm8 x = x"

section \<open>Code generation: \<open>TOTPGenerator.generate_totp\<close>\<close>

text \<open>\<^verbatim>\<open>str(n)\<close> for an integer, and \<^verbatim>\<open>s.zfill(width)\<close>, which keeps a leading sign in front.\<close>

definition digit_char :: "nat \<Rightarrow> char" where
  "digit_char d = char_of (48 + d)"

fun str_nat :: "nat \<Rightarrow> string" where
  "str_nat n = (if n < 10 then [digit_char n] else str_nat (n div 10) @ [digit_char (n mod 10)])"

declare str_nat.simps [simp del]

definition py_str :: "int \<Rightarrow> string" where
  "py_str i = (if i < 0 then CHR ''-'' # str_nat (nat (- i)) else str_nat (nat i))"

definition zfill :: "nat \<Rightarrow> string \<Rightarrow> string" where
  "zfill width s =
     (case s of
        [] \<Rightarrow> replicate width (CHR ''0'')
      | c # rest \<Rightarrow>
          if c = CHR ''+'' \<or> c = CHR ''-''
          then c # replicate (width - length s) (CHR ''0'') @ rest
          else replicate (width - length s) (CHR ''0'') @ s)"

text \<open>\<^verbatim>\<open>int(x)\<close> of a float: the integer part, rounded towards zero.\<close>

definition py_int :: "real \<Rightarrow> int" where
  "py_int x = (if 0 \<le> x then \<lfloor>x\<rfloor> else \<lceil>x\<rceil>)"

text \<open>
  The body of the \<^verbatim>\<open>try\<close> block. \<open>now\<close> is the value of \<^verbatim>\<open>time.time()\<close> that the function
  reads from the clock. \<^verbatim>\<open>//\<close> raises on a zero divisor and \<^verbatim>\<open>struct.pack\<close> on a
  counter outside \<open>[0, 2^64)\<close>. The digest has 20 bytes (\<open>length_hmac_sha1\<close> below), so
  \<^verbatim>\<open>hmac_hash[-1]\<close> is \<open>last\<close> and every index up to \<open>offset + 3 \<le> 18\<close> is in range.
\<close>

definition generate_totp_try ::
  "(nat \<Rightarrow> utext) \<Rightarrow> utext \<Rightarrow> nat \<Rightarrow> int \<Rightarrow> real \<Rightarrow> py_error + string" where
  "generate_totp_try uc secret digits time_step now =
     (case base32_decode uc secret of
        Inl e \<Rightarrow> Inl e
      | Inr key \<Rightarrow>
          if time_step = 0 then Inl ZeroDivisionError
          else
            (let time_counter = py_int now div time_step in
             case struct_pack_Q time_counter of
               Inl e \<Rightarrow> Inl e
             | Inr time_bytes \<Rightarrow>
                 (let hmac_hash = hmac_sha1 key time_bytes;
                      offset = unat (last hmac_hash AND 0x0F);
                      binary = push_bit 24 (uint (hmac_hash ! offset) AND 0x7F)
                            OR push_bit 16 (uint (hmac_hash ! (offset + 1)) AND 0xFF)
                            OR push_bit 8 (uint (hmac_hash ! (offset + 2)) AND 0xFF)
                            OR (uint (hmac_hash ! (offset + 3)) AND 0xFF);
                      code = binary mod 10 ^ digits
                  in Inr (zfill digits (py_str code)))))"

text \<open>The \<^verbatim>\<open>except Exception\<close> clause turns every exception into the text \<open>ERROR\<close>.\<close>

definition generate_totp ::
  "(nat \<Rightarrow> utext) \<Rightarrow> utext \<Rightarrow> nat \<Rightarrow> int \<Rightarrow> real \<Rightarrow> string" where
  "generate_totp uc secret digits time_step now =
     (case generate_totp_try uc secret digits time_step now of
        Inl e \<Rightarrow> ''ERROR''
      | Inr code \<Rightarrow> code)"

subsection \<open>The code in the specification's words\<close>

text \<open>
  The counter is \<open>floor(atEpochSeconds / timeStepSeconds)\<close>, as eight big-endian bytes;
  \<open>offset\<close> is the low nibble of \<open>mac[19]\<close>; \<open>binary\<close> is the big-endian value of
  \<open>mac[offset..offset+4]\<close> with the high bit of its first byte cleared; the result is
  \<open>binary mod 10^digits\<close> written with exactly \<open>digits\<close> decimal places.
\<close>

definition dynamic_truncate :: "byte list \<Rightarrow> nat" where
  "dynamic_truncate mac =
     (let offset = unat (mac ! 19 AND 0x0F);
          window = take 4 (drop offset mac)
      in be_value ((hd window AND 0x7F) # tl window))"

definition decimal_fixed :: "nat \<Rightarrow> nat \<Rightarrow> string" where
  "decimal_fixed w n = map (\<lambda>i. digit_char (n div 10 ^ (w - 1 - i) mod 10)) [0..<w]"

definition totp_spec :: "byte list \<Rightarrow> nat \<Rightarrow> int \<Rightarrow> real \<Rightarrow> string" where
  "totp_spec key digits timeStepSeconds atEpochSeconds =
     (let counter = nat \<lfloor>atEpochSeconds / of_int timeStepSeconds\<rfloor>;
          mac = hmac_sha1 key (be_bytes 8 counter);
          binary = dynamic_truncate mac
      in decimal_fixed digits (binary mod 10 ^ digits))"

section \<open>Refresh clock\<close>

text \<open>
  Both \<open>CircularProgressBar.draw\<close> and \<open>VerifierCard.update_code\<close> compute
  \<^verbatim>\<open>seconds_left = 30 - (int(time.time()) % 30)\<close>, with the literal 30. The argument
  \<open>now\<close> is the value of \<^verbatim>\<open>time.time()\<close>; Python's \<open>%\<close> with a positive modulus is HOL's
  \<open>mod\<close> on \<open>int\<close>.
\<close>

definition seconds_left :: "real \<Rightarrow> int" where
  "seconds_left now = 30 - (py_int now mod 30)"

text \<open>
  The specification's formula, with the window length as a parameter:
  \<open>timeStepSeconds - (floor(atEpochSeconds) mod timeStepSeconds)\<close>.
\<close>

definition secondsRemaining :: "int \<Rightarrow> real \<Rightarrow> int" where
  "secondsRemaining timeStepSeconds atEpochSeconds =
     timeStepSeconds - (\<lfloor>atEpochSeconds\<rfloor> mod timeStepSeconds)"

section \<open>The secret store: \<open>TwoFactorAuthApp\<close>\<close>

text \<open>
  \<open>self.verifiers\<close> is whatever \<^verbatim>\<open>json.load\<close> returned or the program built: a JSON
  value. A JSON object is an association list. \<^verbatim>\<open>json.load\<close> and \<^verbatim>\<open>json.dump\<close> are
  library functions; a file is modelled by what \<^verbatim>\<open>json.load\<close> makes of it: there is no
  file, or opening or parsing it raises, or it parses to a value.
\<close>

datatype json =
    JNull
  | JBool bool
  | JNum int
  | JFloat real
  | JStr utext
  | JList "json list"
  | JDict "(utext \<times> json) list"

datatype disk = Absent | Unreadable | Stored json

datatype dialog = Showwarning | Showerror | Showinfo

record app_state =
  verifiers :: json
  data_file :: disk

text \<open>
  \<open>load_verifiers\<close>: no file gives \<^verbatim>\<open>[]\<close>; an exception while opening or parsing is
  caught, a warning is shown (\<^verbatim>\<open>"will use an empty data list"\<close>) and \<^verbatim>\<open>[]\<close> is
  returned; otherwise the parsed value is returned as it is.
\<close>

definition load_verifiers :: "disk \<Rightarrow> dialog option \<times> json" where
  "load_verifiers file =
     (case file of
        Absent \<Rightarrow> (None, JList [])
      | Unreadable \<Rightarrow> (Some Showwarning, JList [])
      | Stored v \<Rightarrow> (None, v))"

text \<open>The state that \<^verbatim>\<open>__init__\<close> sets up before it builds the user interface.\<close>

definition init_app :: "disk \<Rightarrow> app_state" where
  "init_app file = \<lparr>verifiers = snd (load_verifiers file), data_file = file\<rparr>"

text \<open>
  \<open>save_verifiers\<close> opens the data file with mode \<^verbatim>\<open>'w'\<close>, which truncates it, and
  dumps the list into it. What the file system does is an argument of the model: the
  write goes through; or \<^verbatim>\<open>open\<close> raises and the file is as before; or the write
  raises after the truncation (the message shown names permissions and disk space) and
  leaves an incomplete text, which \<^verbatim>\<open>json.load\<close> rejects. An exception is caught, an
  error dialog is shown and \<^verbatim>\<open>False\<close> is returned.
\<close>

datatype write_outcome = Written | OpenFailed | WriteFailed

definition save_verifiers :: "write_outcome \<Rightarrow> app_state \<Rightarrow> bool \<times> app_state" where
  "save_verifiers w st =
     (case w of
        Written \<Rightarrow> (True, st\<lparr>data_file := Stored (verifiers st)\<rparr>)
      | OpenFailed \<Rightarrow> (False, st)
      | WriteFailed \<Rightarrow> (False, st\<lparr>data_file := Unreadable\<rparr>))"

text \<open>\<^verbatim>\<open>not self.verifiers\<close>: Python's truth value of a JSON value.\<close>

definition truthy :: "json \<Rightarrow> bool" where
  "truthy v =
     (case v of
        JNull \<Rightarrow> False
      | JBool b \<Rightarrow> b
      | JNum n \<Rightarrow> n \<noteq> 0
      | JFloat x \<Rightarrow> x \<noteq> 0
      | JStr s \<Rightarrow> s \<noteq> []
      | JList xs \<Rightarrow> xs \<noteq> []
      | JDict kvs \<Rightarrow> kvs \<noteq> [])"

text \<open>\<^verbatim>\<open>len(x)\<close>: defined on lists, objects and strings, \<open>TypeError\<close> on the rest.\<close>

definition py_len :: "json \<Rightarrow> py_error + nat" where
  "py_len v =
     (case v of
        JList xs \<Rightarrow> Inr (length xs)
      | JDict kvs \<Rightarrow> Inr (length kvs)
      | JStr s \<Rightarrow> Inr (length s)
      | _ \<Rightarrow> Inl TypeError)"

text \<open>
  \<open>render_verifiers\<close> rebuilds the cards. Of that only its exceptions matter here: for
  each item it evaluates \<^verbatim>\<open>verifier["name"]\<close> and then \<^verbatim>\<open>verifier["key"]\<close>, which raises
  \<open>KeyError\<close> on an object without the key and \<open>TypeError\<close> on an item that is not an
  object. An empty (falsy) store shows the empty label and returns. A store that is
  true but not a list yields items (or fails to iterate) that raise \<open>TypeError\<close>. The
  card itself does not raise: \<open>generate_totp\<close> catches every exception.
\<close>

fun render_items :: "json list \<Rightarrow> py_error + unit" where
  "render_items [] = Inr ()"
| "render_items (item # items) =
     (case item of
        JDict kvs \<Rightarrow>
          if ascii ''name'' \<notin> set (map fst kvs) then Inl KeyError
          else if ascii ''key'' \<notin> set (map fst kvs) then Inl KeyError
          else render_items items
      | _ \<Rightarrow> Inl TypeError)"

definition render_verifiers :: "json \<Rightarrow> py_error + unit" where
  "render_verifiers v =
     (if \<not> truthy v then Inr ()
      else case v of JList xs \<Rightarrow> render_items xs | _ \<Rightarrow> Inl TypeError)"

text \<open>\<open>update_stats\<close> shows \<^verbatim>\<open>len(self.verifiers)\<close> and the time of day.\<close>

definition update_stats :: "json \<Rightarrow> py_error + unit" where
  "update_stats v = (case py_len v of Inl e \<Rightarrow> Inl e | Inr n \<Rightarrow> Inr ())"

text \<open>
  What follows a save in \<open>add_verifier\<close>, \<open>delete_verifier\<close> and \<open>clear_all\<close>: when the
  save succeeded, the list is rendered again and the statistics are updated, outside
  any \<^verbatim>\<open>try\<close>; when it failed, the error dialog of \<open>save_verifiers\<close> has been shown.
  An exception leaves the handler, and the state stays as it then is.
\<close>

definition after_save :: "bool \<times> app_state \<Rightarrow> (py_error + dialog option) \<times> app_state" where
  "after_save r =
     (case r of
        (ok, st) \<Rightarrow>
          if ok then
            (case render_verifiers (verifiers st) of
               Inl e \<Rightarrow> (Inl e, st)
             | Inr _ \<Rightarrow>
                 (case update_stats (verifiers st) of
                    Inl e \<Rightarrow> (Inl e, st)
                  | Inr _ \<Rightarrow> (Inr None, st)))
          else (Inr (Some Showerror), st))"

text \<open>
  \<^verbatim>\<open>str.strip()\<close> removes Unicode white space at both ends: the code points 9 to 13,
  28 to 32, 133, 160, 5760, 8192 to 8202, 8232, 8233, 8239, 8287 and 12288.
\<close>

definition is_space :: "nat \<Rightarrow> bool" where
  "is_space c =
     ((9 \<le> c \<and> c \<le> 13) \<or> (28 \<le> c \<and> c \<le> 32) \<or> c = 133 \<or> c = 160 \<or> c = 5760
      \<or> (8192 \<le> c \<and> c \<le> 8202) \<or> c = 8232 \<or> c = 8233 \<or> c = 8239 \<or> c = 8287
      \<or> c = 12288)"

definition strip :: "utext \<Rightarrow> utext" where
  "strip s = rev (dropWhile is_space (rev (dropWhile is_space s)))"

text \<open>The placeholder texts of the two entry fields.\<close>

definition name_placeholder :: utext where
  "name_placeholder = [0x4F8B, 0x5982] @ ascii '': GitHub''"

definition key_placeholder :: utext where
  "key_placeholder = [0x8F93, 0x5165] @ ascii ''2FA'' @ [0x5BC6, 0x94A5]"

text \<open>
  \<open>add_verifier\<close>, given the texts of the two entry fields. \<^verbatim>\<open>self.verifiers.append\<close>
  raises \<open>AttributeError\<close> when the loaded value is not a list. The record is appended
  before the save and stays in memory when the save fails.
\<close>

definition add_verifier ::
  "(nat \<Rightarrow> utext) \<Rightarrow> utext \<Rightarrow> utext \<Rightarrow> write_outcome \<Rightarrow> app_state
     \<Rightarrow> (py_error + dialog option) \<times> app_state" where
  "add_verifier uc name_entry key_entry w st =
     (let name = strip name_entry; key = strip key_entry in
      if name = [] \<or> name = name_placeholder then (Inr (Some Showwarning), st)
      else if key = [] \<or> key = key_placeholder then (Inr (Some Showwarning), st)
      else
        (case base32_decode uc key of
           Inl e \<Rightarrow> (Inr (Some Showerror), st)
         | Inr _ \<Rightarrow>
             (case verifiers st of
                JList xs \<Rightarrow>
                  after_save (save_verifiers w
                    (st\<lparr>verifiers :=
                          JList (xs @ [JDict [(ascii ''name'', JStr name), (ascii ''key'', JStr key)]])\<rparr>))
              | _ \<Rightarrow> (Inl AttributeError, st))))"

text \<open>
  \<open>delete_verifier\<close>: guarded by \<^verbatim>\<open>0 <= index < len(self.verifiers)\<close>, a chained
  comparison that does not evaluate \<^verbatim>\<open>len\<close> when the index is negative; outside the
  guard nothing happens and nothing is reported. \<^verbatim>\<open>pop(index)\<close> on an object raises
  \<open>KeyError\<close> (its keys are strings), on a string \<open>AttributeError\<close>.
\<close>

definition delete_verifier ::
  "int \<Rightarrow> write_outcome \<Rightarrow> app_state \<Rightarrow> (py_error + dialog option) \<times> app_state" where
  "delete_verifier index w st =
     (if 0 \<le> index then
        (case py_len (verifiers st) of
           Inl e \<Rightarrow> (Inl e, st)
         | Inr n \<Rightarrow>
             if index < int n then
               (case verifiers st of
                  JList xs \<Rightarrow>
                    after_save (save_verifiers w
                      (st\<lparr>verifiers := JList (take (nat index) xs @ drop (Suc (nat index)) xs)\<rparr>))
                | JDict kvs \<Rightarrow> (Inl KeyError, st)
                | _ \<Rightarrow> (Inl AttributeError, st))
             else (Inr None, st))
      else (Inr None, st))"

text \<open>
  \<open>import_data\<close>. \<open>chosen\<close> is the file picked in the dialog (\<open>None\<close> when the dialog
  is cancelled), \<open>confirm\<close> the answer to the overwrite question. The validation loop
  checks that every item is an object with the keys \<open>name\<close> and \<open>key\<close>, and nothing else.
  The whole body sits in \<^verbatim>\<open>try ... except Exception\<close>, which shows an error dialog, so
  an exception of the rendering after the save ends there too.
\<close>

definition has_name_and_key :: "json \<Rightarrow> bool" where
  "has_name_and_key item =
     (case item of
        JDict kvs \<Rightarrow> ascii ''name'' \<in> set (map fst kvs) \<and> ascii ''key'' \<in> set (map fst kvs)
      | _ \<Rightarrow> False)"

definition import_data ::
  "disk option \<Rightarrow> bool \<Rightarrow> write_outcome \<Rightarrow> app_state \<Rightarrow> dialog option \<times> app_state" where
  "import_data chosen confirm w st =
     (case chosen of
        None \<Rightarrow> (None, st)
      | Some Absent \<Rightarrow> (Some Showerror, st)
      | Some Unreadable \<Rightarrow> (Some Showerror, st)
      | Some (Stored imported_data) \<Rightarrow>
          (case imported_data of
             JList items \<Rightarrow>
               if \<not> list_all has_name_and_key items then (Some Showerror, st)
               else if confirm then
                 (case after_save (save_verifiers w (st\<lparr>verifiers := imported_data\<rparr>)) of
                    (Inl e, st') \<Rightarrow> (Some Showerror, st')
                  | (Inr None, st') \<Rightarrow> (Some Showinfo, st')
                  | (Inr (Some d), st') \<Rightarrow> (Some d, st'))
               else (None, st)
           | _ \<Rightarrow> (Some Showerror, st)))"

text \<open>\<open>clear_all\<close>; after a successful save it shows the success dialog.\<close>

definition clear_all ::
  "bool \<Rightarrow> write_outcome \<Rightarrow> app_state \<Rightarrow> (py_error + dialog option) \<times> app_state" where
  "clear_all confirm w st =
     (if \<not> truthy (verifiers st) then (Inr (Some Showinfo), st)
      else if confirm then
        (case after_save (save_verifiers w (st\<lparr>verifiers := JList []\<rparr>)) of
           (Inr None, st') \<Rightarrow> (Inr (Some Showinfo), st')
         | r \<Rightarrow> r)
      else (Inr None, st))"

subsection \<open>The store invariant of the specification\<close>

text \<open>
  A stored record is an object whose \<open>key\<close> is a text that \<open>base32_decode\<close> accepts; the
  store is in order when it is a list of such records.
\<close>

definition secret_decodes :: "(nat \<Rightarrow> utext) \<Rightarrow> json \<Rightarrow> bool" where
  "secret_decodes uc item =
     (case item of
        JDict kvs \<Rightarrow>
          (case map_of kvs (ascii ''key'') of
             Some (JStr s) \<Rightarrow> (case base32_decode uc s of Inl e \<Rightarrow> False | Inr bs \<Rightarrow> True)
           | _ \<Rightarrow> False)
      | _ \<Rightarrow> False)"

definition store_ok :: "(nat \<Rightarrow> utext) \<Rightarrow> app_state \<Rightarrow> bool" where
  "store_ok uc st =
     (case verifiers st of JList xs \<Rightarrow> list_all (secret_decodes uc) xs | _ \<Rightarrow> False)"

section \<open>Base32 decoding refines its specification\<close>

lemma str_index_append:
  "str_index (xs @ ys) c =
     (case str_index xs c of
        Inr i \<Rightarrow> Inr i
      | Inl e \<Rightarrow> (case str_index ys c of Inr i \<Rightarrow> Inr (length xs + i) | Inl e' \<Rightarrow> Inl e'))"
  by (induction xs) (simp_all split: sum.splits)

lemma str_index_upt:
  "str_index [a..<b] c = (if a \<le> c \<and> c < b then Inr (c - a) else Inl SubstringNotFound)"
proof (induction b)
  case 0
  then show ?case by simp
next
  case (Suc b)
  show ?case
  proof (cases "a \<le> b")
    case True
    then have "[a..<Suc b] = [a..<b] @ [b]" by simp
    then show ?thesis using True by (auto simp: str_index_append Suc.IH)
  next
    case False
    then show ?thesis by simp
  qed
qed

lemma base32_chars_ranges: "base32_chars = [65..<91] @ [50..<56]"
  by (simp add: base32_chars_def ascii_def upt_rec)

lemma in_alphabet_iff: "c \<in> set base32_chars \<longleftrightarrow> in_alphabet c"
  unfolding base32_chars_ranges set_append set_upt in_alphabet_def by auto

lemma str_index_alphabet:
  "str_index base32_chars c =
     (if in_alphabet c then Inr (symbol_value c) else Inl SubstringNotFound)"
  unfolding base32_chars_ranges str_index_append str_index_upt length_upt
    in_alphabet_def symbol_value_def
  by auto

lemma symbol_value_less: "in_alphabet c \<Longrightarrow> symbol_value c < 32"
  by (auto simp: in_alphabet_def symbol_value_def)

lemma symbol_A: "in_alphabet 65" "symbol_value 65 = 0"
  by (simp_all add: in_alphabet_def symbol_value_def)

lemma check_chars_find:
  "check_chars s =
     (case find (\<lambda>c. \<not> in_alphabet c) s of
        Some c \<Rightarrow> Inl (InvalidBase32Character c) | None \<Rightarrow> Inr ())"
  by (induction s) (simp_all add: in_alphabet_iff)

lemma source_strip:
  "remove_char (of_char (CHR ''='')) (remove_char (of_char (CHR '' '')) (upper uc txt))
     = symbols_of uc txt"
  by (simp add: remove_char_def symbols_of_def)

lemma format_05b_table:
  "list_all (\<lambda>i. format_05b i = map bitchar (five_bits i)) [0..<32]"
  by code_simp

lemma format_05b_five_bits:
  assumes "i < 32"
  shows "format_05b i = map bitchar (five_bits i)"
proof -
  from assms have "i \<in> set [0..<32]" by simp
  with format_05b_table show ?thesis
    unfolding list_all_iff by blast
qed

lemma int_base2_bits:
  "int_base2 acc (map bitchar bs) =
     Inr (foldl (\<lambda>acc b. 2 * acc + (if b then 1 else 0)) acc bs)"
  by (induction bs arbitrary: acc) (simp_all add: bitchar_def)

lemma chunks_step:
  "xs \<noteq> [] \<Longrightarrow> 0 < n \<Longrightarrow> chunks n xs = take n xs # chunks n (drop n xs)"
  by (cases xs) simp_all

lemma bytes_loop_chunks:
  "bytes_loop (map bitchar bits) i =
     Inr (map (of_nat \<circ> bits_value) (filter (\<lambda>g. length g = 8) (chunks 8 (drop i bits))))"
proof (induction "map bitchar bits" i rule: bytes_loop.induct)
  case (1 i)
  let ?M = "map bitchar bits"
  show ?case
  proof (cases "i < length bits")
    case False
    then show ?thesis by (subst bytes_loop.simps) simp
  next
    case True
    then have lt: "i < length ?M" by simp
    from True have ne: "drop i bits \<noteq> []" by simp
    have ch: "chunks 8 (drop i bits) = take 8 (drop i bits) # chunks 8 (drop (i + 8) bits)"
      using chunks_step [OF ne, of 8] by (simp add: add.commute)
    have tk: "take 8 (drop i ?M) = map bitchar (take 8 (drop i bits))"
      by (simp add: take_map drop_map)
    have ib: "int_base2 0 (take 8 (drop i ?M)) = Inr (bits_value (take 8 (drop i bits)))"
      by (simp only: tk int_base2_bits bits_value_def)
    show ?thesis
    proof (cases "length (take 8 (drop i bits)) = 8")
      case full: True
      then have len: "length (take 8 (drop i ?M)) = 8" by (simp add: tk)
      have ih: "bytes_loop ?M (i + 8) =
          Inr (map (of_nat \<circ> bits_value) (filter (\<lambda>g. length g = 8) (chunks 8 (drop (i + 8) bits))))"
        by (rule "1.hyps"(1) [OF lt refl len ib])
      have step: "bytes_loop ?M i =
          (case bytes_loop ?M (i + 8) of
             Inl e \<Rightarrow> Inl e
           | Inr result \<Rightarrow> Inr (of_nat (bits_value (take 8 (drop i bits))) # result))"
        by (subst bytes_loop.simps) (simp only: lt len ib Let_def if_True sum.case simp_thms)
      show ?thesis
        unfolding step ih ch using full by simp
    next
      case short: False
      then have len: "length (take 8 (drop i ?M)) \<noteq> 8" by (simp add: tk)
      have ih: "bytes_loop ?M (i + 8) =
          Inr (map (of_nat \<circ> bits_value) (filter (\<lambda>g. length g = 8) (chunks 8 (drop (i + 8) bits))))"
        by (rule "1.hyps"(2) [OF lt refl len])
      have step: "bytes_loop ?M i = bytes_loop ?M (i + 8)"
        by (subst bytes_loop.simps) (simp only: lt len Let_def if_True if_False simp_thms)
      show ?thesis
        unfolding step ih ch using short by simp
    qed
  qed
qed
lemma pad_count_step:
  fixes n :: nat
  assumes "n mod 8 \<noteq> 0"
  shows "(8 - n mod 8) mod 8 = Suc ((8 - Suc n mod 8) mod 8)"
proof (cases "n mod 8 = 7")
  case True
  then show ?thesis by (simp add: mod_Suc)
next
  case False
  have "n mod 8 < 8" by simp
  with False have lt: "n mod 8 < 7" by linarith
  from assms have pos: "0 < n mod 8" by simp
  have a: "(8 - n mod 8) mod 8 = 8 - n mod 8" using pos by (intro mod_less) linarith
  have b: "Suc n mod 8 = Suc (n mod 8)" using lt by (simp add: mod_Suc)
  have c: "(8 - Suc (n mod 8)) mod 8 = 8 - Suc (n mod 8)" by (intro mod_less) linarith
  show ?thesis unfolding a b c using lt by linarith
qed

lemma pad_until_replicate:
  "(8 - length vs mod 8) mod 8 \<le> k \<Longrightarrow>
     pad_until k vs = vs @ replicate ((8 - length vs mod 8) mod 8) 0"
proof (induction k arbitrary: vs)
  case 0
  then show ?case by simp
next
  case (Suc k)
  show ?case
  proof (cases "length vs mod 8 = 0")
    case True
    then show ?thesis by simp
  next
    case False
    have st: "(8 - length vs mod 8) mod 8 = Suc ((8 - length (vs @ [0]) mod 8) mod 8)"
      using pad_count_step [OF False] by simp
    with Suc.prems have "(8 - length (vs @ [0]) mod 8) mod 8 \<le> k" by simp
    then have "pad_until k (vs @ [0]) = (vs @ [0]) @ replicate ((8 - length (vs @ [0]) mod 8) mod 8) 0"
      by (rule Suc.IH)
    then show ?thesis using False by (simp only: pad_until.simps if_False st) simp
  qed
qed

lemma pad_to_8_replicate:
  "pad_to_8 vs = vs @ replicate ((8 - length vs mod 8) mod 8) 0"
proof -
  have "(8 - length vs mod 8) mod 8 < 8" by simp
  then have "(8 - length vs mod 8) mod 8 \<le> 7" by linarith
  then show ?thesis unfolding pad_to_8_def by (rule pad_until_replicate)
qed

lemma bits_loop_valid:
  "\<forall>c \<in> set s. in_alphabet c \<Longrightarrow>
     bits_loop s = Inr (map bitchar (concat (map five_bits (map symbol_value s))))"
proof (induction s)
  case Nil
  then show ?case by simp
next
  case (Cons c cs)
  from Cons.prems have c: "in_alphabet c" by simp
  then have "symbol_value c < 32" by (rule symbol_value_less)
  then have f: "format_05b (symbol_value c) = map bitchar (five_bits (symbol_value c))"
    by (rule format_05b_five_bits)
  from Cons.prems have "\<forall>c \<in> set cs. in_alphabet c" by simp
  then have ih: "bits_loop cs = Inr (map bitchar (concat (map five_bits (map symbol_value cs))))"
    by (rule Cons.IH)
  show ?case by (simp add: str_index_alphabet c ih f)
qed

lemma source_padding:
  "(if 8 - length s mod 8 \<noteq> 8 then s @ replicate (8 - length s mod 8) c else s)
     = s @ replicate ((8 - length s mod 8) mod 8) c"
proof (cases "length s mod 8 = 0")
  case True
  then show ?thesis by simp
next
  case False
  then have "8 - length s mod 8 < 8" by simp
  then show ?thesis by simp
qed

lemma base32_decode_refines: "base32_decode uc txt = decode_spec uc txt"
proof -
  define s where "s = symbols_of uc txt"
  have s: "remove_char (of_char (CHR ''='')) (remove_char (of_char (CHR '' '')) (upper uc txt)) = s"
    by (simp only: source_strip s_def)
  show ?thesis
  proof (cases "find (\<lambda>c. \<not> in_alphabet c) s")
    case (Some c)
    then show ?thesis
      unfolding base32_decode_def decode_spec_def s s_def [symmetric]
      by (simp add: check_chars_find)
  next
    case None
    then have valid: "\<forall>c \<in> set s. in_alphabet c"
      by (simp add: find_None_iff)
    let ?p = "(8 - length s mod 8) mod 8"
    let ?s' = "s @ replicate ?p 65"
    have A: "(of_char (CHR ''A'') :: nat) = 65" by simp
    have valid': "\<forall>c \<in> set ?s'. in_alphabet c"
      using valid by (auto simp: symbol_A)
    have vals: "map symbol_value ?s' = pad_to_8 (map symbol_value s)"
      by (simp add: pad_to_8_replicate symbol_A)
    have bits: "bits_loop ?s' =
        Inr (map bitchar (concat (map five_bits (pad_to_8 (map symbol_value s)))))"
      using bits_loop_valid [OF valid'] by (simp only: vals)
    show ?thesis
      unfolding base32_decode_def decode_spec_def s s_def [symmetric] Let_def
        check_chars_find None source_padding A
      by (simp add: bits bytes_loop_chunks)
  qed
qed

lemma length_five_bits: "length (concat (map five_bits vs)) = 5 * length vs"
  by (induction vs) (simp_all add: five_bits_def)

lemma chunks_full:
  "0 < n \<Longrightarrow> length xs = n * j \<Longrightarrow>
     filter (\<lambda>g. length g = n) (chunks n xs) = chunks n xs \<and> length (chunks n xs) = j"
proof (induction j arbitrary: xs)
  case 0
  then show ?case by simp
next
  case (Suc j)
  from Suc.prems have ne: "xs \<noteq> []" by auto
  from Suc.prems have len: "length (drop n xs) = n * j" by simp
  from Suc.prems have tk: "length (take n xs) = n" by simp
  have ch: "chunks n xs = take n xs # chunks n (drop n xs)"
    using ne Suc.prems(1) by (rule chunks_step)
  from Suc.IH [OF Suc.prems(1) len] show ?case
    unfolding ch using tk by simp
qed

lemma padded_count:
  fixes k :: nat
  shows "k + (8 - k mod 8) mod 8 = 8 * ((k + 7) div 8)"
proof -
  define q r where "q = k div 8" and "r = k mod 8"
  have k: "k = 8 * q + r" by (simp add: q_def r_def)
  have r: "r < 8" by (simp add: r_def)
  have kr: "(8 * q + r) mod 8 = r" using r by simp
  show ?thesis
  proof (cases "r = 0")
    case True
    have "(8 * q + 7) div 8 = q" by (rule div_nat_eqI) simp_all
    then show ?thesis unfolding k kr by (simp add: True)
  next
    case False
    have d: "(8 * q + r + 7) div 8 = Suc q" by (rule div_nat_eqI) (use r False in simp_all)
    have m: "(8 - r) mod 8 = 8 - r" using False by simp
    show ?thesis unfolding k kr d m using r by simp
  qed
qed

lemma decode_spec_length:
  assumes "decode_spec uc txt = Inr bs"
  shows "length bs = 5 * ((length (symbols_of uc txt) + 7) div 8)"
proof -
  let ?vs = "pad_to_8 (map symbol_value (symbols_of uc txt))"
  let ?bits = "concat (map five_bits ?vs)"
  from assms have bs: "bs = map (of_nat \<circ> bits_value) (filter (\<lambda>g. length g = 8) (chunks 8 ?bits))"
    by (auto simp: decode_spec_def Let_def split: option.splits)
  have "length ?vs = 8 * ((length (symbols_of uc txt) + 7) div 8)"
    by (simp add: pad_to_8_replicate padded_count)
  then have "length ?bits = 8 * (5 * ((length (symbols_of uc txt) + 7) div 8))"
    by (simp add: length_five_bits)
  then have "filter (\<lambda>g. length g = 8) (chunks 8 ?bits) = chunks 8 ?bits
       \<and> length (chunks 8 ?bits) = 5 * ((length (symbols_of uc txt) + 7) div 8)"
    by (intro chunks_full) simp_all
  then show ?thesis by (simp add: bs)
qed

section \<open>The secret store\<close>

lemma verifiers_save [simp]: "verifiers (snd (save_verifiers w st)) = verifiers st"
  by (cases w) (simp_all add: save_verifiers_def)

lemma snd_after_save [simp]: "snd (after_save r) = snd r"
  by (cases r) (simp add: after_save_def split: sum.splits)

lemma render_items_ok: "render_items xs = Inr () \<longleftrightarrow> list_all has_name_and_key xs"
  by (induction xs) (auto simp: has_name_and_key_def split: json.splits)

lemma after_save_written:
  assumes "verifiers st = JList ys" and "list_all has_name_and_key ys"
  shows "after_save (save_verifiers Written st) = (Inr None, st\<lparr>data_file := Stored (JList ys)\<rparr>)"
proof -
  have "render_items ys = Inr ()" using assms(2) by (simp add: render_items_ok)
  then show ?thesis
    using assms(1)
    by (simp add: after_save_def save_verifiers_def render_verifiers_def update_stats_def py_len_def)
qed

lemma store_ok_init_absent: "store_ok uc (init_app Absent)"
  by (simp add: store_ok_def init_app_def load_verifiers_def)

lemma add_verifier_keeps_store_ok:
  assumes "store_ok uc st"
  shows "store_ok uc (snd (add_verifier uc name_entry key_entry w st))"
proof -
  let ?name = "strip name_entry" and ?key = "strip key_entry"
  show ?thesis
  proof (cases "?name = [] \<or> ?name = name_placeholder \<or> ?key = [] \<or> ?key = key_placeholder")
    case True
    with assms show ?thesis by (auto simp: add_verifier_def Let_def)
  next
    case False
    show ?thesis
    proof (cases "base32_decode uc ?key")
      case (Inl e)
      with False assms show ?thesis by (simp add: add_verifier_def Let_def)
    next
      case (Inr bs)
      from assms obtain xs where xs: "verifiers st = JList xs" "list_all (secret_decodes uc) xs"
        by (auto simp: store_ok_def split: json.splits)
      let ?r = "JDict [(ascii ''name'', JStr ?name), (ascii ''key'', JStr ?key)]"
      have r: "secret_decodes uc ?r" by (simp add: secret_decodes_def Inr ascii_def)
      from False Inr xs
      have "snd (add_verifier uc name_entry key_entry w st)
          = snd (save_verifiers w (st\<lparr>verifiers := JList (xs @ [?r])\<rparr>))"
        by (simp add: add_verifier_def Let_def)
      then show ?thesis using xs r by (simp add: store_ok_def)
    qed
  qed
qed

lemma delete_verifier_keeps_store_ok:
  assumes "store_ok uc st"
  shows "store_ok uc (snd (delete_verifier index w st))"
proof -
  from assms obtain xs where xs: "verifiers st = JList xs" "list_all (secret_decodes uc) xs"
    by (auto simp: store_ok_def split: json.splits)
  show ?thesis
  proof (cases "0 \<le> index \<and> index < int (length xs)")
    case False
    with assms xs show ?thesis by (auto simp: delete_verifier_def py_len_def)
  next
    case True
    let ?ys = "take (nat index) xs @ drop (Suc (nat index)) xs"
    from True xs have "snd (delete_verifier index w st)
        = snd (save_verifiers w (st\<lparr>verifiers := JList ?ys\<rparr>))"
      by (simp add: delete_verifier_def py_len_def)
    moreover have "list_all (secret_decodes uc) ?ys"
      using xs(2) by (auto simp: list_all_iff dest: in_set_takeD in_set_dropD)
    ultimately show ?thesis by (simp add: store_ok_def)
  qed
qed

lemma clear_all_keeps_store_ok:
  assumes "store_ok uc st"
  shows "store_ok uc (snd (clear_all confirm w st))"
proof -
  have "snd (clear_all confirm w st) = st
      \<or> snd (clear_all confirm w st) = snd (save_verifiers w (st\<lparr>verifiers := JList []\<rparr>))"
    by (auto simp: clear_all_def split: prod.splits sum.splits option.splits
        dest: arg_cong [where f = snd])
  then show ?thesis using assms by (auto simp: store_ok_def)
qed

lemma import_data_bad_shape:
  assumes "\<not> list_all has_name_and_key items"
  shows "import_data (Some (Stored (JList items))) confirm w st = (Some Showerror, st)"
  using assms by (simp add: import_data_def)

lemma import_data_not_a_list:
  assumes "\<forall>items. v \<noteq> JList items"
  shows "import_data (Some (Stored v)) confirm w st = (Some Showerror, st)"
  using assms by (cases v) (simp_all add: import_data_def)

lemma decode_1_fails: "base32_decode uc (ascii ''1'') = Inl (InvalidBase32Character 49)"
  by code_simp

section \<open>The RFC 6238 test vector, computed step by step\<close>

text \<open>
  Rules that compute with word numerals and bring every 32-bit result back below
  \<open>2 ^ 32\<close>, so that eighty rounds stay small.
\<close>

lemma of_nat_mod32: "(of_nat (m mod 4294967296) :: u32) = of_nat m"
proof -
  have "(4294967296::nat) = 2 ^ 32" by simp
  then have "m mod 4294967296 = take_bit 32 m"
    by (simp only: take_bit_eq_mod)
  then show ?thesis
    by (simp only: word_of_nat_eq_iff) simp
qed

lemma of_nat_mod8: "(of_nat (m mod 256) :: byte) = of_nat m"
proof -
  have "(256::nat) = 2 ^ 8" by simp
  then have "m mod 256 = take_bit 8 m"
    by (simp only: take_bit_eq_mod)
  then show ?thesis
    by (simp only: word_of_nat_eq_iff) simp
qed

lemma norm32_numeral: "norm32 (numeral n) = of_nat (numeral n mod 4294967296)"
  unfolding norm32_def of_nat_mod32 by simp

lemma norm8_numeral: "norm8 (numeral n) = of_nat (numeral n mod 256)"
  unfolding norm8_def of_nat_mod8 by simp

lemma norm_small: "norm32 0 = 0" "norm32 1 = 1" "norm8 0 = 0" "norm8 1 = 1"
  by (simp_all add: norm32_def norm8_def)

lemma replicate_numeral: "replicate (numeral k) x = x # replicate (pred_numeral k) x"
  by (simp add: numeral_eq_Suc)

lemma be_bytes_numeral:
  "be_bytes (numeral k) n = be_bytes (pred_numeral k) (n div 256) @ [norm8 (of_nat (n mod 256))]"
proof -
  have "be_bytes (Suc (pred_numeral k)) n =
      be_bytes (pred_numeral k) (n div 256) @ [norm8 (of_nat (n mod 256))]"
    by (simp only: be_bytes.simps norm8_def)
  then show ?thesis by (simp only: numeral_eq_Suc [symmetric, of k])
qed

lemma be_bytes_one: "be_bytes 1 n = [norm8 (of_nat (n mod 256))]"
  by (simp add: norm8_def)

lemma sha1_sched_numeral:
  "sha1_sched (numeral k) win =
     norm32 (rotl32 1 (win ! 13 XOR win ! 8 XOR win ! 2 XOR win ! 0))
       # sha1_sched (pred_numeral k)
           (tl win @ [norm32 (rotl32 1 (win ! 13 XOR win ! 8 XOR win ! 2 XOR win ! 0))])"
  by (simp add: numeral_eq_Suc norm32_def Let_def)

lemma sha1_sched_one:
  "sha1_sched 1 win = [norm32 (rotl32 1 (win ! 13 XOR win ! 8 XOR win ! 2 XOR win ! 0))]"
  by (simp add: norm32_def Let_def)

lemma sha1_round_norm:
  "sha1_round (a, b, c, d, e) (t, w) =
     (norm32 (rotl32 5 a + sha1_f t b c d + e + sha1_k t + w), a, norm32 (rotl32 30 b), c, d)"
  by (simp add: norm32_def)

lemma sha1_add_norm:
  "sha1_add (a, b, c, d, e) (a', b', c', d', e') =
     (norm32 (a + a'), norm32 (b + b'), norm32 (c + c'), norm32 (d + d'), norm32 (e + e'))"
  by (simp add: norm32_def)

lemma u32_bytes_norm:
  "u32_bytes w = [norm8 (ucast (drop_bit 24 w)), norm8 (ucast (drop_bit 16 w)),
                  norm8 (ucast (drop_bit 8 w)), norm8 (ucast w)]"
  by (simp add: u32_bytes_def norm8_def)

lemmas sha1_eval =
  sha1_sched_numeral sha1_sched_one sha1_round_norm sha1_add_norm norm32_numeral norm8_numeral
  norm_small sha1_f_def sha1_k_def rotl32_def

text \<open>The inner hash: the key block masked with 0x36, followed by the counter.\<close>

lemma kat_inner_pad:
  "chunks 64 (sha1_pad [7, 4, 5, 2, 3, 0, 1, 14, 15, 6, 7, 4, 5, 2, 3, 0, 1, 14, 15, 6, 54, 54, 54, 54, 54, 54, 54, 54, 54, 54, 54, 54, 54, 54, 54, 54, 54, 54, 54, 54, 54, 54, 54, 54, 54, 54, 54, 54, 54, 54, 54, 54, 54, 54, 54, 54, 54, 54, 54, 54, 54, 54, 54, 54, 0, 0, 0, 0, 0, 0, 0, 1]) =
     [[7, 4, 5, 2, 3, 0, 1, 14, 15, 6, 7, 4, 5, 2, 3, 0, 1, 14, 15, 6, 54, 54, 54, 54, 54, 54, 54, 54, 54, 54, 54, 54, 54, 54, 54, 54, 54, 54, 54, 54, 54, 54, 54, 54, 54, 54, 54, 54, 54, 54, 54, 54, 54, 54, 54, 54, 54, 54, 54, 54, 54, 54, 54, 54], [0, 0, 0, 0, 0, 0, 0, 1, 128, 0, 0, 0, 0, 0, 0, 0, 0, 0, 0, 0, 0, 0, 0, 0, 0, 0, 0, 0, 0, 0, 0, 0, 0, 0, 0, 0, 0, 0, 0, 0, 0, 0, 0, 0, 0, 0, 0, 0, 0, 0, 0, 0, 0, 0, 0, 0, 0, 0, 0, 0, 0, 0, 2, 64]]"
  by (simp add: sha1_pad_def replicate_numeral be_bytes_numeral be_bytes_one norm8_numeral norm_small)

lemma kat_inner_1_words:
  "map be32 (chunks 4 [7, 4, 5, 2, 3, 0, 1, 14, 15, 6, 7, 4, 5, 2, 3, 0, 1, 14, 15, 6, 54, 54, 54, 54, 54, 54, 54, 54, 54, 54, 54, 54, 54, 54, 54, 54, 54, 54, 54, 54, 54, 54, 54, 54, 54, 54, 54, 54, 54, 54, 54, 54, 54, 54, 54, 54, 54, 54, 54, 54, 54, 54, 54, 54]) =
     [117703938, 50331918, 252053252, 84017920, 17698566, 909522486, 909522486, 909522486, 909522486, 909522486, 909522486, 909522486, 909522486, 909522486, 909522486, 909522486]"
  by (simp add: be32_def)

lemma kat_inner_1_sched:
  "sha1_sched 64 [117703938, 50331918, 252053252, 84017920, 17698566, 909522486, 909522486, 909522486, 909522486, 909522486, 909522486, 909522486, 909522486, 909522486, 909522486, 909522486] =
     [268698636, 201589788, 470814724, 705433112, 437524020, 1414286436, 947155036, 1480867844, 2291175632, 1759570048, 2292752384, 1161379217, 3857317224, 3117013193, 3070164974, 255794829, 2056960034, 4029430485, 52916603, 2210893726, 1867203498, 1842170789, 196813305, 2711743302, 786400942, 2896010363, 2676985515, 2748438736, 562281135, 2305296020, 3357375946, 4267895650, 3155464903, 785820148, 453160496, 3818855513, 3612008976, 3154907278, 500010376, 1210645662, 1653675161, 2024718766, 3662466389, 1466936585, 2364918198, 580149338, 2102894360, 684912508, 3458633833, 2439108151, 2108480530, 2377409391, 2921783347, 1446551729, 528403149, 1826907391, 1099420200, 1136451771, 2414049308, 1938880553, 946908236, 2805640983, 3208543019, 3662668785]"
  by (simp add: sha1_eval del: sha1_round.simps sha1_add.simps)

lemma kat_inner_1_rounds:
  "foldl sha1_round (1732584193, 4023233417, 2562383102, 271733878, 3285377520)
     (zip [0..<80] ([117703938, 50331918, 252053252, 84017920, 17698566, 909522486, 909522486, 909522486, 909522486, 909522486, 909522486, 909522486, 909522486, 909522486, 909522486, 909522486] @
       [268698636, 201589788, 470814724, 705433112, 437524020, 1414286436, 947155036, 1480867844, 2291175632, 1759570048, 2292752384, 1161379217, 3857317224, 3117013193, 3070164974, 255794829, 2056960034, 4029430485, 52916603, 2210893726, 1867203498, 1842170789, 196813305, 2711743302, 786400942, 2896010363, 2676985515, 2748438736, 562281135, 2305296020, 3357375946, 4267895650, 3155464903, 785820148, 453160496, 3818855513, 3612008976, 3154907278, 500010376, 1210645662, 1653675161, 2024718766, 3662466389, 1466936585, 2364918198, 580149338, 2102894360, 684912508, 3458633833, 2439108151, 2108480530, 2377409391, 2921783347, 1446551729, 528403149, 1826907391, 1099420200, 1136451771, 2414049308, 1938880553, 946908236, 2805640983, 3208543019, 3662668785])) =
     (1686301067, 97269539, 620620596, 3395513677, 882200117)"
  by (simp add: sha1_eval upt_rec del: sha1_round.simps sha1_add.simps)

lemma kat_inner_1_compress:
  "sha1_compress (1732584193, 4023233417, 2562383102, 271733878, 3285377520)
     [7, 4, 5, 2, 3, 0, 1, 14, 15, 6, 7, 4, 5, 2, 3, 0, 1, 14, 15, 6, 54, 54, 54, 54, 54, 54, 54, 54, 54, 54, 54, 54, 54, 54, 54, 54, 54, 54, 54, 54, 54, 54, 54, 54, 54, 54, 54, 54, 54, 54, 54, 54, 54, 54, 54, 54, 54, 54, 54, 54, 54, 54, 54, 54] =
     (3418885260, 4120502956, 3183003698, 3667247555, 4167577637)"
  unfolding sha1_compress_def Let_def kat_inner_1_words kat_inner_1_sched kat_inner_1_rounds
  by (simp add: sha1_add_norm norm32_numeral norm_small del: sha1_add.simps)

lemma kat_inner_2_words:
  "map be32 (chunks 4 [0, 0, 0, 0, 0, 0, 0, 1, 128, 0, 0, 0, 0, 0, 0, 0, 0, 0, 0, 0, 0, 0, 0, 0, 0, 0, 0, 0, 0, 0, 0, 0, 0, 0, 0, 0, 0, 0, 0, 0, 0, 0, 0, 0, 0, 0, 0, 0, 0, 0, 0, 0, 0, 0, 0, 0, 0, 0, 0, 0, 0, 0, 2, 64]) =
     [0, 1, 2147483648, 0, 0, 0, 0, 0, 0, 0, 0, 0, 0, 0, 0, 576]"
  by (simp add: be32_def)

lemma kat_inner_2_sched:
  "sha1_sched 64 [0, 1, 2147483648, 0, 0, 0, 0, 0, 0, 0, 0, 0, 0, 0, 0, 576] =
     [1, 2, 1153, 2, 4, 2306, 4, 1160, 4614, 12, 18, 9224, 16, 5792, 18458, 3508, 76, 36908, 4678, 23176, 73848, 4824, 288, 152208, 256, 92688, 295336, 53824, 1220, 594120, 79468, 366488, 1181572, 77232, 18460, 2439976, 4184, 1454392, 4725448, 884352, 93224, 9510480, 1271776, 5974800, 18905408, 1286928, 96, 39025616, 65856, 23728464, 75532520, 13779072, 312576, 152094848, 20343808, 93830144, 302482448, 19697696, 4740240, 624597280, 1071104, 372279712, 1209788416, 226303232]"
  by (simp add: sha1_eval del: sha1_round.simps sha1_add.simps)

lemma kat_inner_2_rounds:
  "foldl sha1_round (3418885260, 4120502956, 3183003698, 3667247555, 4167577637)
     (zip [0..<80] ([0, 1, 2147483648, 0, 0, 0, 0, 0, 0, 0, 0, 0, 0, 0, 0, 576] @
       [1, 2, 1153, 2, 4, 2306, 4, 1160, 4614, 12, 18, 9224, 16, 5792, 18458, 3508, 76, 36908, 4678, 23176, 73848, 4824, 288, 152208, 256, 92688, 295336, 53824, 1220, 594120, 79468, 366488, 1181572, 77232, 18460, 2439976, 4184, 1454392, 4725448, 884352, 93224, 9510480, 1271776, 5974800, 18905408, 1286928, 96, 39025616, 65856, 23728464, 75532520, 13779072, 312576, 152094848, 20343808, 93830144, 302482448, 19697696, 4740240, 624597280, 1071104, 372279712, 1209788416, 226303232])) =
     (3799088710, 4020237232, 2682917482, 2949345918, 2664499815)"
  by (simp add: sha1_eval upt_rec del: sha1_round.simps sha1_add.simps)

lemma kat_inner_2_compress:
  "sha1_compress (3418885260, 4120502956, 3183003698, 3667247555, 4167577637)
     [0, 0, 0, 0, 0, 0, 0, 1, 128, 0, 0, 0, 0, 0, 0, 0, 0, 0, 0, 0, 0, 0, 0, 0, 0, 0, 0, 0, 0, 0, 0, 0, 0, 0, 0, 0, 0, 0, 0, 0, 0, 0, 0, 0, 0, 0, 0, 0, 0, 0, 0, 0, 0, 0, 0, 0, 0, 0, 0, 0, 0, 0, 2, 64] =
     (2923006674, 3845772892, 1570953884, 2321626177, 2537110156)"
  unfolding sha1_compress_def Let_def kat_inner_2_words kat_inner_2_sched kat_inner_2_rounds
  by (simp add: sha1_add_norm norm32_numeral norm_small del: sha1_add.simps)

lemma kat_inner_sha1:
  "sha1 [7, 4, 5, 2, 3, 0, 1, 14, 15, 6, 7, 4, 5, 2, 3, 0, 1, 14, 15, 6, 54, 54, 54, 54, 54, 54, 54, 54, 54, 54, 54, 54, 54, 54, 54, 54, 54, 54, 54, 54, 54, 54, 54, 54, 54, 54, 54, 54, 54, 54, 54, 54, 54, 54, 54, 54, 54, 54, 54, 54, 54, 54, 54, 54, 0, 0, 0, 0, 0, 0, 0, 1] =
     [174, 57, 138, 210, 229, 57, 214, 92, 93, 162, 218, 156, 138, 97, 52, 65, 151, 57, 58, 140]"
  unfolding sha1_def kat_inner_pad sha1_init_def
  by (simp add: kat_inner_1_compress kat_inner_2_compress u32_bytes_norm norm8_numeral norm_small)

text \<open>The outer hash: the key block masked with 0x5C, followed by the inner digest.\<close>

lemma kat_outer_pad:
  "chunks 64 (sha1_pad [109, 110, 111, 104, 105, 106, 107, 100, 101, 108, 109, 110, 111, 104, 105, 106, 107, 100, 101, 108, 92, 92, 92, 92, 92, 92, 92, 92, 92, 92, 92, 92, 92, 92, 92, 92, 92, 92, 92, 92, 92, 92, 92, 92, 92, 92, 92, 92, 92, 92, 92, 92, 92, 92, 92, 92, 92, 92, 92, 92, 92, 92, 92, 92, 174, 57, 138, 210, 229, 57, 214, 92, 93, 162, 218, 156, 138, 97, 52, 65, 151, 57, 58, 140]) =
     [[109, 110, 111, 104, 105, 106, 107, 100, 101, 108, 109, 110, 111, 104, 105, 106, 107, 100, 101, 108, 92, 92, 92, 92, 92, 92, 92, 92, 92, 92, 92, 92, 92, 92, 92, 92, 92, 92, 92, 92, 92, 92, 92, 92, 92, 92, 92, 92, 92, 92, 92, 92, 92, 92, 92, 92, 92, 92, 92, 92, 92, 92, 92, 92], [174, 57, 138, 210, 229, 57, 214, 92, 93, 162, 218, 156, 138, 97, 52, 65, 151, 57, 58, 140, 128, 0, 0, 0, 0, 0, 0, 0, 0, 0, 0, 0, 0, 0, 0, 0, 0, 0, 0, 0, 0, 0, 0, 0, 0, 0, 0, 0, 0, 0, 0, 0, 0, 0, 0, 0, 0, 0, 0, 0, 0, 0, 2, 160]]"
  by (simp add: sha1_pad_def replicate_numeral be_bytes_numeral be_bytes_one norm8_numeral norm_small)

lemma kat_outer_1_words:
  "map be32 (chunks 4 [109, 110, 111, 104, 105, 106, 107, 100, 101, 108, 109, 110, 111, 104, 105, 106, 107, 100, 101, 108, 92, 92, 92, 92, 92, 92, 92, 92, 92, 92, 92, 92, 92, 92, 92, 92, 92, 92, 92, 92, 92, 92, 92, 92, 92, 92, 92, 92, 92, 92, 92, 92, 92, 92, 92, 92, 92, 92, 92, 92, 92, 92, 92, 92]) =
     [1835954024, 1768581988, 1701604718, 1869113706, 1801741676, 1549556828, 1549556828, 1549556828, 1549556828, 1549556828, 1549556828, 1549556828, 1549556828, 1549556828, 1549556828, 1549556828]"
  by (simp add: be32_def)

lemma kat_outer_1_sched:
  "sha1_sched 64 [1835954024, 1768581988, 1701604718, 1869113706, 1801741676, 1549556828, 1549556828, 1549556828, 1549556828, 1549556828, 1549556828, 1549556828, 1549556828, 1549556828, 1549556828, 1549556828] =
     [268698636, 201589788, 470814724, 4275624652, 3468739296, 2157484208, 1158221089, 624508281, 557398393, 2451182202, 1917999866, 3217278827, 3115688244, 3851781269, 1831150645, 2578024475, 2440123337, 466080062, 1918238730, 2716183996, 1400340374, 1690583724, 1373731747, 4227576092, 1304225229, 3489595160, 2224330160, 1813911327, 2419198750, 953792293, 2203465345, 3545220687, 746848855, 3977603639, 3992213702, 192410801, 4284664376, 2485401766, 687388861, 810583270, 3809514776, 3424285978, 2449769757, 2034336551, 1077478778, 3681393059, 4241890969, 2623953864, 4061834325, 2908613131, 971544662, 672253642, 1979530216, 2380495722, 1046473708, 732111800, 500928116, 1286860724, 2162980627, 801940597, 188981119, 2483657764, 1052768938, 599136776]"
  by (simp add: sha1_eval del: sha1_round.simps sha1_add.simps)

lemma kat_outer_1_rounds:
  "foldl sha1_round (1732584193, 4023233417, 2562383102, 271733878, 3285377520)
     (zip [0..<80] ([1835954024, 1768581988, 1701604718, 1869113706, 1801741676, 1549556828, 1549556828, 1549556828, 1549556828, 1549556828, 1549556828, 1549556828, 1549556828, 1549556828, 1549556828, 1549556828] @
       [268698636, 201589788, 470814724, 4275624652, 3468739296, 2157484208, 1158221089, 624508281, 557398393, 2451182202, 1917999866, 3217278827, 3115688244, 3851781269, 1831150645, 2578024475, 2440123337, 466080062, 1918238730, 2716183996, 1400340374, 1690583724, 1373731747, 4227576092, 1304225229, 3489595160, 2224330160, 1813911327, 2419198750, 953792293, 2203465345, 3545220687, 746848855, 3977603639, 3992213702, 192410801, 4284664376, 2485401766, 687388861, 810583270, 3809514776, 3424285978, 2449769757, 2034336551, 1077478778, 3681393059, 4241890969, 2623953864, 4061834325, 2908613131, 971544662, 672253642, 1979530216, 2380495722, 1046473708, 732111800, 500928116, 1286860724, 2162980627, 801940597, 188981119, 2483657764, 1052768938, 599136776])) =
     (829987532, 1762840693, 346161388, 713944725, 977110581)"
  by (simp add: sha1_eval upt_rec del: sha1_round.simps sha1_add.simps)

lemma kat_outer_1_compress:
  "sha1_compress (1732584193, 4023233417, 2562383102, 271733878, 3285377520)
     [109, 110, 111, 104, 105, 106, 107, 100, 101, 108, 109, 110, 111, 104, 105, 106, 107, 100, 101, 108, 92, 92, 92, 92, 92, 92, 92, 92, 92, 92, 92, 92, 92, 92, 92, 92, 92, 92, 92, 92, 92, 92, 92, 92, 92, 92, 92, 92, 92, 92, 92, 92, 92, 92, 92, 92, 92, 92, 92, 92, 92, 92, 92, 92] =
     (2562571725, 1491106814, 2908544490, 985678603, 4262488101)"
  unfolding sha1_compress_def Let_def kat_outer_1_words kat_outer_1_sched kat_outer_1_rounds
  by (simp add: sha1_add_norm norm32_numeral norm_small del: sha1_add.simps)

lemma kat_outer_2_words:
  "map be32 (chunks 4 [174, 57, 138, 210, 229, 57, 214, 92, 93, 162, 218, 156, 138, 97, 52, 65, 151, 57, 58, 140, 128, 0, 0, 0, 0, 0, 0, 0, 0, 0, 0, 0, 0, 0, 0, 0, 0, 0, 0, 0, 0, 0, 0, 0, 0, 0, 0, 0, 0, 0, 0, 0, 0, 0, 0, 0, 0, 0, 0, 0, 0, 0, 2, 160]) =
     [2923006674, 3845772892, 1570953884, 2321626177, 2537110156, 2147483648, 0, 0, 0, 0, 0, 0, 0, 0, 0, 672]"
  by (simp add: be32_def)

lemma kat_outer_2_sched:
  "sha1_sched 64 [2923006674, 3845772892, 1570953884, 2321626177, 2537110156, 2147483648, 0, 0, 0, 0, 0, 0, 0, 0, 0, 672] =
     [3879116957, 3736192058, 2503460193, 3668912569, 2467429740, 711953090, 3042857843, 639893401, 2595378367, 3621727890, 1713927665, 2151348748, 2308810748, 2559572774, 2762216389, 3793698302, 3766064330, 4006322600, 69394437, 554146683, 2184401046, 566418673, 1419714277, 597784775, 2051199722, 3680688039, 2423035295, 2279641462, 3905971728, 2524782445, 792990009, 2404058371, 281637520, 2010511514, 845955103, 802769113, 2471731698, 1290139273, 1551969246, 3384153891, 1812301529, 4021103402, 114116967, 2760015926, 1993735139, 2789034752, 2401079427, 2415534770, 3510369965, 1903695828, 1343296624, 755728790, 2432617527, 3875503540, 623212581, 1916773656, 3122174286, 1055230426, 2758543320, 727295965, 2946915610, 3601344444, 2696242092, 1178049224]"
  by (simp add: sha1_eval del: sha1_round.simps sha1_add.simps)

lemma kat_outer_2_rounds:
  "foldl sha1_round (2562571725, 1491106814, 2908544490, 985678603, 4262488101)
     (zip [0..<80] ([2923006674, 3845772892, 1570953884, 2321626177, 2537110156, 2147483648, 0, 0, 0, 0, 0, 0, 0, 0, 0, 672] @
       [3879116957, 3736192058, 2503460193, 3668912569, 2467429740, 711953090, 3042857843, 639893401, 2595378367, 3621727890, 1713927665, 2151348748, 2308810748, 2559572774, 2762216389, 3793698302, 3766064330, 4006322600, 69394437, 554146683, 2184401046, 566418673, 1419714277, 597784775, 2051199722, 3680688039, 2423035295, 2279641462, 3905971728, 2524782445, 792990009, 2404058371, 281637520, 2010511514, 845955103, 802769113, 2471731698, 1290139273, 1551969246, 3384153891, 1812301529, 4021103402, 114116967, 2760015926, 1993735139, 2789034752, 2401079427, 2415534770, 3510369965, 1903695828, 1343296624, 755728790, 2432617527, 3875503540, 623212581, 1916773656, 3122174286, 1055230426, 2758543320, 727295965, 2946915610, 3601344444, 2696242092, 1178049224])) =
     (3706113100, 2079024386, 3069291735, 4273907561, 2082261894)"
  by (simp add: sha1_eval upt_rec del: sha1_round.simps sha1_add.simps)

lemma kat_outer_2_compress:
  "sha1_compress (2562571725, 1491106814, 2908544490, 985678603, 4262488101)
     [174, 57, 138, 210, 229, 57, 214, 92, 93, 162, 218, 156, 138, 97, 52, 65, 151, 57, 58, 140, 128, 0, 0, 0, 0, 0, 0, 0, 0, 0, 0, 0, 0, 0, 0, 0, 0, 0, 0, 0, 0, 0, 0, 0, 0, 0, 0, 0, 0, 0, 0, 0, 0, 0, 0, 0, 0, 0, 0, 0, 0, 0, 2, 160] =
     (1973717529, 3570131200, 1682868929, 964618868, 2049782699)"
  unfolding sha1_compress_def Let_def kat_outer_2_words kat_outer_2_sched kat_outer_2_rounds
  by (simp add: sha1_add_norm norm32_numeral norm_small del: sha1_add.simps)

lemma kat_outer_sha1:
  "sha1 [109, 110, 111, 104, 105, 106, 107, 100, 101, 108, 109, 110, 111, 104, 105, 106, 107, 100, 101, 108, 92, 92, 92, 92, 92, 92, 92, 92, 92, 92, 92, 92, 92, 92, 92, 92, 92, 92, 92, 92, 92, 92, 92, 92, 92, 92, 92, 92, 92, 92, 92, 92, 92, 92, 92, 92, 92, 92, 92, 92, 92, 92, 92, 92, 174, 57, 138, 210, 229, 57, 214, 92, 93, 162, 218, 156, 138, 97, 52, 65, 151, 57, 58, 140] =
     [117, 164, 138, 25, 212, 203, 225, 0, 100, 78, 138, 193, 57, 126, 234, 116, 122, 45, 51, 171]"
  unfolding sha1_def kat_outer_pad sha1_init_def
  by (simp add: kat_outer_1_compress kat_outer_2_compress u32_bytes_norm norm8_numeral norm_small)

lemma kat_hmac:
  "hmac_sha1 [49, 50, 51, 52, 53, 54, 55, 56, 57, 48, 49, 50, 51, 52, 53, 54, 55, 56, 57, 48] [0, 0, 0, 0, 0, 0, 0, 1] =
     [117, 164, 138, 25, 212, 203, 225, 0, 100, 78, 138, 193, 57, 126, 234, 116, 122, 45, 51, 171]"
proof -
  have k: "[49, 50, 51, 52, 53, 54, 55, 56, 57, 48, 49, 50, 51, 52, 53, 54, 55, 56, 57, 48] @ replicate (64 - length [49, 50, 51, 52, 53, 54, 55, 56, 57, 48, 49, 50, 51, 52, 53, 54, 55, 56, 57, 48]) (0::byte) =
      [49, 50, 51, 52, 53, 54, 55, 56, 57, 48, 49, 50, 51, 52, 53, 54, 55, 56, 57, 48, 0, 0, 0, 0, 0, 0, 0, 0, 0, 0, 0, 0, 0, 0, 0, 0, 0, 0, 0, 0, 0, 0, 0, 0, 0, 0, 0, 0, 0, 0, 0, 0, 0, 0, 0, 0, 0, 0, 0, 0, 0, 0, 0, 0]"
    by (simp add: replicate_numeral)
  have i: "map (\<lambda>b. b XOR 0x36) [49, 50, 51, 52, 53, 54, 55, 56, 57, 48, 49, 50, 51, 52, 53, 54, 55, 56, 57, 48, 0, 0, 0, 0, 0, 0, 0, 0, 0, 0, 0, 0, 0, 0, 0, 0, 0, 0, 0, 0, 0, 0, 0, 0, 0, 0, 0, 0, 0, 0, 0, 0, 0, 0, 0, 0, 0, 0, 0, 0, 0, 0, 0, 0] @ [0, 0, 0, 0, 0, 0, 0, 1] =
      ([7, 4, 5, 2, 3, 0, 1, 14, 15, 6, 7, 4, 5, 2, 3, 0, 1, 14, 15, 6, 54, 54, 54, 54, 54, 54, 54, 54, 54, 54, 54, 54, 54, 54, 54, 54, 54, 54, 54, 54, 54, 54, 54, 54, 54, 54, 54, 54, 54, 54, 54, 54, 54, 54, 54, 54, 54, 54, 54, 54, 54, 54, 54, 54, 0, 0, 0, 0, 0, 0, 0, 1] :: byte list)"
    by simp
  have o: "map (\<lambda>b. b XOR 0x5C) [49, 50, 51, 52, 53, 54, 55, 56, 57, 48, 49, 50, 51, 52, 53, 54, 55, 56, 57, 48, 0, 0, 0, 0, 0, 0, 0, 0, 0, 0, 0, 0, 0, 0, 0, 0, 0, 0, 0, 0, 0, 0, 0, 0, 0, 0, 0, 0, 0, 0, 0, 0, 0, 0, 0, 0, 0, 0, 0, 0, 0, 0, 0, 0] @ [174, 57, 138, 210, 229, 57, 214, 92, 93, 162, 218, 156, 138, 97, 52, 65, 151, 57, 58, 140] =
      ([109, 110, 111, 104, 105, 106, 107, 100, 101, 108, 109, 110, 111, 104, 105, 106, 107, 100, 101, 108, 92, 92, 92, 92, 92, 92, 92, 92, 92, 92, 92, 92, 92, 92, 92, 92, 92, 92, 92, 92, 92, 92, 92, 92, 92, 92, 92, 92, 92, 92, 92, 92, 92, 92, 92, 92, 92, 92, 92, 92, 92, 92, 92, 92, 174, 57, 138, 210, 229, 57, 214, 92, 93, 162, 218, 156, 138, 97, 52, 65, 151, 57, 58, 140] :: byte list)"
    by simp
  have short: "\<not> 64 < length ([49, 50, 51, 52, 53, 54, 55, 56, 57, 48, 49, 50, 51, 52, 53, 54, 55, 56, 57, 48] :: byte list)" by simp
  show ?thesis
    unfolding hmac_sha1_def Let_def
    by (simp only: short if_False k i kat_inner_sha1 o kat_outer_sha1)
qed

section \<open>Code generation refines its specification\<close>

lemma length_sha1: "length (sha1 m) = 20"
proof -
  obtain a b c d e where "foldl sha1_compress sha1_init (chunks 64 (sha1_pad m)) = (a, b, c, d, e)"
    by (rule prod_cases5)
  then show ?thesis by (simp add: sha1_def u32_bytes_def)
qed

lemma length_hmac_sha1: "length (hmac_sha1 key msg) = 20"
  by (simp add: hmac_sha1_def Let_def length_sha1)

lemma length_be_bytes: "length (be_bytes k n) = k"
  by (induction k arbitrary: n) simp_all

lemma be_value_snoc: "be_value (bs @ [b]) = 256 * be_value bs + unat b"
  by (simp add: be_value_def)

lemma be_value_be_bytes: "n < 256 ^ k \<Longrightarrow> be_value (be_bytes k n) = n"
proof (induction k arbitrary: n)
  case 0
  then show ?case by (simp add: be_value_def)
next
  case (Suc k)
  from Suc.prems have "n div 256 < 256 ^ k"
    by (simp add: less_mult_imp_div_less mult.commute)
  then have ih: "be_value (be_bytes k (n div 256)) = n div 256" by (rule Suc.IH)
  have "unat (of_nat (n mod 256) :: byte) = n mod 256"
    by (simp add: unat_of_nat)
  then show ?case by (simp add: be_value_snoc ih)
qed

lemma or_low_byte:
  fixes d x :: int
  assumes "0 \<le> d" and "d < 256"
  shows "push_bit 8 x OR d = 256 * x + d"
proof -
  have t: "take_bit 8 d = d" by (rule take_bit_int_eq_self) (use assms in simp_all)
  have "push_bit 8 x OR d = concat_bit 8 d x"
    by (simp add: concat_bit_def t or.commute)
  also have "\<dots> = take_bit 8 d + push_bit 8 x" by (rule concat_bit_eq)
  finally show ?thesis by (simp add: t push_bit_eq_mult)
qed

lemma uint_byte_and_255: "uint (b :: byte) AND 0xFF = uint b"
proof -
  have m: "(0xFF :: int) = mask 8" by (simp add: mask_eq_exp_minus_1)
  have "uint b < 2 ^ 8" using uint_lt2p [of b] by simp
  then have "take_bit 8 (uint b) = uint b" by (intro take_bit_int_eq_self) simp_all
  then show ?thesis by (simp only: m take_bit_eq_mask [symmetric])
qed

lemma uint_byte_and_127: "uint (b :: byte) AND 0x7F = uint (b AND 0x7F)"
  by (simp add: uint_and)

lemma pack_four_bytes:
  fixes a b c d :: byte
  shows "push_bit 24 (uint a AND 0x7F) OR push_bit 16 (uint b AND 0xFF)
           OR push_bit 8 (uint c AND 0xFF) OR (uint d AND 0xFF)
         = int (be_value [a AND 0x7F, b, c, d])"
proof -
  let ?a = "uint (a AND 0x7F)"
  have byte: "\<And>x :: byte. 0 \<le> uint x \<and> uint x < 256"
  proof -
    fix x :: byte
    show "0 \<le> uint x \<and> uint x < 256" using uint_lt2p [of x] by simp
  qed
  have s1: "push_bit 8 ?a OR uint b = 256 * ?a + uint b"
    using byte [of b] by (intro or_low_byte) simp_all
  have s2: "push_bit 8 (256 * ?a + uint b) OR uint c = 256 * (256 * ?a + uint b) + uint c"
    using byte [of c] by (intro or_low_byte) simp_all
  have s3: "push_bit 8 (256 * (256 * ?a + uint b) + uint c) OR uint d
          = 256 * (256 * (256 * ?a + uint b) + uint c) + uint d"
    using byte [of d] by (intro or_low_byte) simp_all
  have "push_bit 24 ?a OR push_bit 16 (uint b) OR push_bit 8 (uint c) OR uint d
      = push_bit 8 (push_bit 8 (push_bit 8 ?a OR uint b) OR uint c) OR uint d"
    by (simp add: push_bit_or push_bit_push_bit or.assoc)
  also have "\<dots> = 256 * (256 * (256 * ?a + uint b) + uint c) + uint d"
    by (simp only: s1 s2 s3)
  also have "\<dots> = int (be_value [a AND 0x7F, b, c, d])"
    by (simp add: be_value_def)
  finally show ?thesis by (simp only: uint_byte_and_255 uint_byte_and_127)
qed

lemma take_4_drop:
  assumes "i + 3 < length xs"
  shows "take 4 (drop i xs) = [xs ! i, xs ! (i + 1), xs ! (i + 2), xs ! (i + 3)]"
proof -
  have d0: "drop i xs = xs ! i # drop (Suc i) xs"
    using assms by (intro Cons_nth_drop_Suc [symmetric]) simp
  have d1: "drop (Suc i) xs = xs ! Suc i # drop (Suc (Suc i)) xs"
    using assms by (intro Cons_nth_drop_Suc [symmetric]) simp
  have d2: "drop (Suc (Suc i)) xs = xs ! Suc (Suc i) # drop (Suc (Suc (Suc i))) xs"
    using assms by (intro Cons_nth_drop_Suc [symmetric]) simp
  have d3: "drop (Suc (Suc (Suc i))) xs = xs ! Suc (Suc (Suc i)) # drop (Suc (Suc (Suc (Suc i)))) xs"
    using assms by (intro Cons_nth_drop_Suc [symmetric]) simp
  have "take 4 (drop i xs) = [xs ! i, xs ! Suc i, xs ! Suc (Suc i), xs ! Suc (Suc (Suc i))]"
    unfolding d0 d1 d2 d3 by (simp add: numeral_eq_Suc)
  then show ?thesis by (simp add: numeral_eq_Suc)
qed

lemma low_nibble_le: "unat (x AND 0x0F :: byte) \<le> 15"
proof -
  have "unat (x AND 15) \<le> unat (15 :: byte)"
    by (rule word_and_le1 [THEN word_le_nat_alt [THEN iffD1]])
  then show ?thesis by simp
qed

lemma source_truncation:
  assumes "length mac = 20"
  shows "(let offset = unat (last mac AND 0x0F) in
            push_bit 24 (uint (mac ! offset) AND 0x7F)
              OR push_bit 16 (uint (mac ! (offset + 1)) AND 0xFF)
              OR push_bit 8 (uint (mac ! (offset + 2)) AND 0xFF)
              OR (uint (mac ! (offset + 3)) AND 0xFF))
         = int (dynamic_truncate mac)"
proof -
  from assms have ne: "mac \<noteq> []" by auto
  have l: "last mac = mac ! 19" using assms by (simp add: last_conv_nth [OF ne])
  let ?o = "unat (mac ! 19 AND 0x0F)"
  have "?o \<le> 15" by (rule low_nibble_le)
  then have "?o + 3 < length mac" using assms by simp
  then have w: "take 4 (drop ?o mac) = [mac ! ?o, mac ! (?o + 1), mac ! (?o + 2), mac ! (?o + 3)]"
    by (rule take_4_drop)
  show ?thesis
    unfolding Let_def l dynamic_truncate_def w pack_four_bytes by simp
qed

lemma of_char_digit_char: "d < 10 \<Longrightarrow> (of_char (digit_char d) :: nat) = 48 + d"
  by (simp add: digit_char_def)

lemma str_nat_small: "n < 10 \<Longrightarrow> str_nat n = [digit_char n]"
  by (subst str_nat.simps) simp

lemma str_nat_large: "\<not> n < 10 \<Longrightarrow> str_nat n = str_nat (n div 10) @ [digit_char (n mod 10)]"
  by (subst str_nat.simps) simp

lemma str_nat_digits: "c \<in> set (str_nat n) \<Longrightarrow> \<exists>d < 10. c = digit_char d"
proof (induction n arbitrary: c rule: str_nat.induct)
  case (1 n)
  show ?case
  proof (cases "n < 10")
    case True
    with "1.prems" show ?thesis by (auto simp: str_nat_small)
  next
    case False
    from "1.prems" have "c \<in> set (str_nat (n div 10)) \<or> c = digit_char (n mod 10)"
      by (auto simp: str_nat_large [OF False])
    then show ?thesis
    proof
      assume "c \<in> set (str_nat (n div 10))"
      then show ?thesis by (rule "1.IH" [OF False])
    next
      assume "c = digit_char (n mod 10)"
      moreover have "n mod 10 < 10" by simp
      ultimately show ?thesis by blast
    qed
  qed
qed

lemma str_nat_not_empty: "str_nat n \<noteq> []"
  by (cases "n < 10") (simp_all add: str_nat_small str_nat_large)

lemma digit_char_not_sign: "d < 10 \<Longrightarrow> digit_char d \<noteq> CHR ''+'' \<and> digit_char d \<noteq> CHR ''-''"
proof -
  assume d: "d < 10"
  have "(of_char (digit_char d) :: nat) \<noteq> of_char (CHR ''+'')"
    using d by (simp add: of_char_digit_char)
  moreover have "(of_char (digit_char d) :: nat) \<noteq> of_char (CHR ''-'')"
    using d by (simp add: of_char_digit_char)
  ultimately show ?thesis by auto
qed

lemma zfill_str_nat:
  "zfill w (str_nat n) = replicate (w - length (str_nat n)) (CHR ''0'') @ str_nat n"
proof (cases "str_nat n")
  case Nil
  with str_nat_not_empty [of n] show ?thesis by blast
next
  case (Cons c rest)
  then have "c \<in> set (str_nat n)" by simp
  then obtain d where d: "d < 10" "c = digit_char d" using str_nat_digits by blast
  have ns: "\<not> (c = CHR ''+'' \<or> c = CHR ''-'')"
    unfolding d(2) using digit_char_not_sign [OF d(1)] by simp
  have "zfill w (c # rest) = replicate (w - length (c # rest)) (CHR ''0'') @ c # rest"
    unfolding zfill_def by (simp only: list.case ns if_False)
  then show ?thesis by (simp only: Cons)
qed

lemma digit_char_0: "digit_char 0 = CHR ''0''"
  by (simp add: digit_char_def char_of_eq_iff)

lemma decimal_fixed_Suc:
  "decimal_fixed (Suc w) n = decimal_fixed w (n div 10) @ [digit_char (n mod 10)]"
proof -
  have "map (\<lambda>i. digit_char (n div 10 ^ (Suc w - 1 - i) mod 10)) [0..<w]
      = map (\<lambda>i. digit_char (n div 10 div 10 ^ (w - 1 - i) mod 10)) [0..<w]"
  proof (rule map_cong [OF refl])
    fix i assume "i \<in> set [0..<w]"
    then have "Suc w - 1 - i = Suc (w - 1 - i)" by simp
    then show "digit_char (n div 10 ^ (Suc w - 1 - i) mod 10)
             = digit_char (n div 10 div 10 ^ (w - 1 - i) mod 10)"
      by (simp add: div_mult2_eq)
  qed
  then show ?thesis by (simp add: decimal_fixed_def)
qed

lemma decimal_fixed_zero: "decimal_fixed w 0 = replicate w (CHR ''0'')"
  by (simp add: decimal_fixed_def digit_char_0 map_replicate_const)

lemma zero_padded_decimal:
  "n < 10 ^ Suc w \<Longrightarrow>
     replicate (Suc w - length (str_nat n)) (CHR ''0'') @ str_nat n = decimal_fixed (Suc w) n"
proof (induction w arbitrary: n)
  case 0
  then have "n < 10" by simp
  then show ?case by (simp add: str_nat_small decimal_fixed_def)
next
  case (Suc w)
  show ?case
  proof (cases "n < 10")
    case True
    then show ?thesis
      by (simp add: str_nat_small decimal_fixed_Suc [of "Suc w"] decimal_fixed_zero
          replicate_append_same)
  next
    case False
    from Suc.prems have "n div 10 < 10 ^ Suc w"
      by (simp add: less_mult_imp_div_less mult.commute)
    then have "replicate (Suc w - length (str_nat (n div 10))) (CHR ''0'') @ str_nat (n div 10)
        = decimal_fixed (Suc w) (n div 10)"
      by (rule Suc.IH)
    then show ?thesis
      by (simp add: str_nat_large [OF False] decimal_fixed_Suc [of "Suc w"])
  qed
qed

lemma zfill_decimal:
  assumes "1 \<le> w" and "n < 10 ^ w"
  shows "zfill w (py_str (int n)) = decimal_fixed w n"
proof -
  from assms(1) obtain v where v: "w = Suc v" by (cases w) simp_all
  have "py_str (int n) = str_nat n" by (simp add: py_str_def)
  then show ?thesis
    using assms(2) unfolding v by (simp add: zfill_str_nat zero_padded_decimal)
qed

lemma length_decimal_fixed: "length (decimal_fixed w n) = w"
  by (simp add: decimal_fixed_def)

lemma py_int_nonneg: "0 \<le> x \<Longrightarrow> py_int x = \<lfloor>x\<rfloor>"
  by (simp add: py_int_def)

lemma counter_floor:
  assumes "1 \<le> time_step" and "0 \<le> now"
  shows "py_int now div time_step = \<lfloor>now / of_int time_step\<rfloor>"
proof -
  from assms(1) have "0 \<le> time_step" by simp
  then have "\<lfloor>now / real_of_int time_step\<rfloor> = \<lfloor>now\<rfloor> div time_step"
    by (rule floor_divide_real_eq_div)
  then show ?thesis using assms(2) by (simp add: py_int_nonneg)
qed

lemma generate_totp_try_decoded:
  assumes "base32_decode uc secret = Inr key" and "1 \<le> digits" and "1 \<le> time_step"
    and "0 \<le> now" and "\<lfloor>now / of_int time_step\<rfloor> < 2 ^ 64"
  shows "generate_totp_try uc secret digits time_step now
       = Inr (totp_spec key digits time_step now)"
proof -
  let ?c = "\<lfloor>now / of_int time_step\<rfloor>"
  let ?mac = "hmac_sha1 key (be_bytes 8 (nat ?c))"
  have cf: "py_int now div time_step = ?c" using assms(3,4) by (rule counter_floor)
  have "0 \<le> now / of_int time_step" using assms(3,4) by simp
  then have c0: "0 \<le> ?c" by simp
  with assms(5) have pack: "struct_pack_Q ?c = Inr (be_bytes 8 (nat ?c))"
    by (simp add: struct_pack_Q_def)
  have tr: "(let offset = unat (last ?mac AND 0x0F) in
            push_bit 24 (uint (?mac ! offset) AND 0x7F)
              OR push_bit 16 (uint (?mac ! (offset + 1)) AND 0xFF)
              OR push_bit 8 (uint (?mac ! (offset + 2)) AND 0xFF)
              OR (uint (?mac ! (offset + 3)) AND 0xFF))
         = int (dynamic_truncate ?mac)"
    by (rule source_truncation) (rule length_hmac_sha1)
  have md: "int (dynamic_truncate ?mac) mod 10 ^ digits = int (dynamic_truncate ?mac mod 10 ^ digits)"
    by (simp add: zmod_int)
  have lt: "dynamic_truncate ?mac mod 10 ^ digits < 10 ^ digits" by simp
  have z: "zfill digits (py_str (int (dynamic_truncate ?mac mod 10 ^ digits)))
        = decimal_fixed digits (dynamic_truncate ?mac mod 10 ^ digits)"
    using assms(2) lt by (rule zfill_decimal)
  from assms(3) have nz: "time_step \<noteq> 0" by simp
  have "generate_totp_try uc secret digits time_step now
      = Inr (zfill digits (py_str (int (dynamic_truncate ?mac) mod 10 ^ digits)))"
    unfolding generate_totp_try_def assms(1) cf Let_def
    using tr by (simp add: nz pack Let_def)
  then show ?thesis
    by (simp only: md z totp_spec_def Let_def)
qed

lemma kat_decode:
  "base32_decode uc (ascii ''GEZDGNBVGY3TQOJQGEZDGNBVGY3TQOJQ'') =
     Inr [49, 50, 51, 52, 53, 54, 55, 56, 57, 48, 49, 50, 51, 52, 53, 54, 55, 56, 57, 48]"
  by code_simp

lemma kat_totp_spec:
  "totp_spec [49, 50, 51, 52, 53, 54, 55, 56, 57, 48, 49, 50, 51, 52, 53, 54, 55, 56, 57, 48]
     8 30 59 = ''94287082''"
proof -
  have "\<lfloor>(59::real) / of_int 30\<rfloor> = 1" by simp
  then have c: "be_bytes 8 (nat \<lfloor>(59::real) / of_int 30\<rfloor>) = [0, 0, 0, 0, 0, 0, 0, 1]"
    by (simp add: be_bytes_numeral be_bytes_one norm_small)
  have t: "dynamic_truncate
      [117, 164, 138, 25, 212, 203, 225, 0, 100, 78, 138, 193, 57, 126, 234, 116, 122, 45, 51, 171]
      = 1094287082"
    by (simp add: dynamic_truncate_def be_value_def)
  have d: "decimal_fixed 8 (1094287082 mod 10 ^ 8) = ''94287082''"
    by (simp add: decimal_fixed_def digit_char_def upt_rec char_of_eq_iff)
  show ?thesis
    unfolding totp_spec_def Let_def c kat_hmac t d ..
qed

lemma kat_generate_totp_try:
  "generate_totp_try uc (ascii ''GEZDGNBVGY3TQOJQGEZDGNBVGY3TQOJQ'') 8 30 59 = Inr ''94287082''"
proof -
  have "generate_totp_try uc (ascii ''GEZDGNBVGY3TQOJQGEZDGNBVGY3TQOJQ'') 8 30 59 =
      Inr (totp_spec [49, 50, 51, 52, 53, 54, 55, 56, 57, 48, 49, 50, 51, 52, 53, 54, 55, 56, 57, 48]
             8 30 59)"
    by (rule generate_totp_try_decoded [OF kat_decode]) simp_all
  then show ?thesis by (simp only: kat_totp_spec)
qed

lemma generate_totp_try_code:
  assumes "generate_totp_try uc secret digits time_step now = Inr code"
  obtains m :: int where "0 \<le> m" and "code = zfill digits (py_str m)"
proof -
  from assms obtain key time_bytes where
    "code = zfill digits (py_str
       ((let hmac_hash = hmac_sha1 key time_bytes; offset = unat (last hmac_hash AND 0x0F) in
           push_bit 24 (uint (hmac_hash ! offset) AND 0x7F)
             OR push_bit 16 (uint (hmac_hash ! (offset + 1)) AND 0xFF)
             OR push_bit 8 (uint (hmac_hash ! (offset + 2)) AND 0xFF)
             OR (uint (hmac_hash ! (offset + 3)) AND 0xFF)) mod 10 ^ digits))"
    by (auto simp: generate_totp_try_def Let_def split: sum.splits if_splits)
  moreover have "0 \<le> x mod 10 ^ digits" for x :: int by simp
  ultimately show ?thesis using that by blast
qed

section \<open>Claims about the decoder\<close>

text \<open>
  Claim C2. For every text, and whatever Unicode's upper-case table says beyond ASCII,
  \<open>base32_decode\<close> uppercases the text, strips spaces and \<open>=\<close>, raises the
  invalid-character error exactly when a remaining character is outside the alphabet
  \<open>A..Z,2..7\<close>, and otherwise returns the bytes that the specification's steps give: pad
  the symbols with the zero symbol to a multiple of 8, concatenate the 5-bit values most
  significant bit first, slice into groups of 8 bits, drop a shorter last group. The
  empty text decodes to the empty byte sequence.
\<close>

theorem base32_decode_meets_spec:
  "base32_decode uc txt = decode_spec uc txt
   \<and> ((\<exists>c \<in> set (symbols_of uc txt). \<not> in_alphabet c)
        \<longleftrightarrow> (\<exists>c. base32_decode uc txt = Inl (InvalidBase32Character c)))
   \<and> base32_decode uc [] = Inr []"
proof -
  have r: "base32_decode uc txt = decode_spec uc txt" by (rule base32_decode_refines)
  have "(\<exists>c \<in> set (symbols_of uc txt). \<not> in_alphabet c)
        \<longleftrightarrow> (\<exists>c. decode_spec uc txt = Inl (InvalidBase32Character c))"
  proof (cases "find (\<lambda>c. \<not> in_alphabet c) (symbols_of uc txt)")
    case None
    then have "\<not> (\<exists>c \<in> set (symbols_of uc txt). \<not> in_alphabet c)"
      by (simp add: find_None_iff)
    moreover have "\<exists>bs. decode_spec uc txt = Inr bs"
      unfolding decode_spec_def Let_def None by simp
    ultimately show ?thesis by auto
  next
    case (Some c)
    then have "\<exists>c \<in> set (symbols_of uc txt). \<not> in_alphabet c"
      by (auto simp: find_Some_iff)
    with Some show ?thesis by (simp add: decode_spec_def)
  qed
  moreover have "base32_decode uc [] = Inr []"
    by (simp add: base32_decode_def upper_def remove_char_def bytes_loop.simps)
  ultimately show ?thesis using r by simp
qed

theorem base32_decode_meets_spec_witness:
  "base32_decode uc_plain (ascii ''mzXW 6==='') = Inr [102, 111, 111, 0, 0]
   \<and> base32_decode uc_sharp_s [223] = Inr [148, 128, 0, 0, 0]
   \<and> base32_decode uc_plain (ascii ''MZ1W'') = Inl (InvalidBase32Character 49)
   \<and> 49 \<in> set (symbols_of uc_plain (ascii ''MZ1W'')) \<and> \<not> in_alphabet 49"
proof -
  have a: "decode_spec uc_plain (ascii ''mzXW 6==='') = Inr [102, 111, 111, 0, 0]"
    by code_simp
  have s: "decode_spec uc_sharp_s [223] = Inr [148, 128, 0, 0, 0]"
    by code_simp
  have b: "decode_spec uc_plain (ascii ''MZ1W'') = Inl (InvalidBase32Character 49)"
    by code_simp
  have c: "49 \<in> set (symbols_of uc_plain (ascii ''MZ1W'')) \<and> \<not> in_alphabet 49"
    by code_simp
  show ?thesis
    using base32_decode_meets_spec [of uc_plain "ascii ''mzXW 6===''"]
      base32_decode_meets_spec [of uc_sharp_s "[223]"]
      base32_decode_meets_spec [of uc_plain "ascii ''MZ1W''"] a s b c
    by simp
qed

text \<open>
  Claim C10. When \<open>base32_decode\<close> accepts a text with \<open>k\<close> symbols left after
  stripping, it returns exactly \<open>5 * ceil(k / 8)\<close> bytes, a multiple of 5; when \<open>k\<close> is not
  a multiple of 8 that is more than the \<open>floor(5 * k / 8)\<close> bytes of standard Base32,
  because the padding symbols become trailing zero bits of the key.
\<close>

theorem base32_decode_length:
  assumes "base32_decode uc txt = Inr bs"
  shows "length bs = 5 * ((length (symbols_of uc txt) + 7) div 8)
       \<and> 5 dvd length bs
       \<and> (length (symbols_of uc txt) mod 8 \<noteq> 0
            \<longrightarrow> 5 * length (symbols_of uc txt) div 8 < length bs)"
proof -
  let ?k = "length (symbols_of uc txt)"
  from assms have "decode_spec uc txt = Inr bs" by (simp add: base32_decode_refines)
  then have len: "length bs = 5 * ((?k + 7) div 8)" by (rule decode_spec_length)
  have "?k mod 8 \<noteq> 0 \<longrightarrow> 5 * ?k div 8 < 5 * ((?k + 7) div 8)"
  proof
    assume "?k mod 8 \<noteq> 0"
    then have "0 < (8 - ?k mod 8) mod 8" by simp
    then have "?k < ?k + (8 - ?k mod 8) mod 8" by simp
    then have "?k < 8 * ((?k + 7) div 8)" by (simp only: padded_count)
    then have "5 * ?k < 8 * (5 * ((?k + 7) div 8))" by simp
    then show "5 * ?k div 8 < 5 * ((?k + 7) div 8)"
      by (simp add: div_less_iff_less_mult mult.commute)
  qed
  with len show ?thesis by simp
qed

theorem base32_decode_length_witness:
  "base32_decode uc_plain (ascii ''MZXW6'') = Inr [102, 111, 111, 0, 0]
   \<and> length (symbols_of uc_plain (ascii ''MZXW6'')) = 5
   \<and> length [102, 111, 111, 0, 0 :: byte] = 5 * ((5 + 7) div 8)
   \<and> 5 * 5 div 8 < length [102, 111, 111, 0, 0 :: byte]"
proof -
  have a: "base32_decode uc_plain (ascii ''MZXW6'') = Inr [102, 111, 111, 0, 0]"
    by code_simp
  have k: "length (symbols_of uc_plain (ascii ''MZXW6'')) = 5"
    by code_simp
  show ?thesis
    using base32_decode_length [OF a] a k by simp
qed

section \<open>Claims about code generation\<close>

text \<open>
  Claim C1, as stated, fails: not every epoch time gives a code. Thirty seconds before
  the epoch the counter is \<open>-1\<close>, \<^verbatim>\<open>struct.pack('>Q', -1)\<close> raises, and the function
  returns the text \<open>ERROR\<close>, which is not a decimal string of 8 characters.
\<close>

theorem generate_totp_before_epoch_counterexample:
  "generate_totp uc_plain (ascii ''GEZDGNBVGY3TQOJQGEZDGNBVGY3TQOJQ'') 8 30 (- 30) = ''ERROR''
   \<and> length ''ERROR'' \<noteq> (8::nat)"
  by (simp add: generate_totp_def generate_totp_try_def kat_decode py_int_def struct_pack_Q_def)

text \<open>
  Claim C1, amended. For every secret that decodes to a key, every number of digits and
  every time step of at least 1, and every epoch time \<open>t \<ge> 0\<close> whose counter
  \<open>floor(t / step)\<close> is below \<open>2^64\<close>, \<open>generate_totp\<close> returns the decimal string of
  \<open>binary mod 10^digits\<close>, zero-padded on the left to exactly \<open>digits\<close> characters, where
  \<open>binary\<close> comes from the HMAC-SHA1 of the key over the 8-byte big-endian counter by
  taking the low nibble of the last byte as offset and packing the four bytes from that
  offset big-endian with the top bit cleared. For the secret
  \<open>GEZDGNBVGY3TQOJQGEZDGNBVGY3TQOJQ\<close>, which decodes to the ASCII bytes of
  \<open>12345678901234567890\<close>, with 8 digits, time step 30 and time 59, the result is
  \<open>94287082\<close>.
\<close>

theorem generate_totp_meets_spec:
  assumes "base32_decode uc secret = Inr key" and "1 \<le> digits" and "1 \<le> time_step"
    and "0 \<le> now" and "\<lfloor>now / of_int time_step\<rfloor> < 2 ^ 64"
  shows "generate_totp uc secret digits time_step now = totp_spec key digits time_step now
       \<and> length (generate_totp uc secret digits time_step now) = digits
       \<and> length (be_bytes 8 (nat \<lfloor>now / of_int time_step\<rfloor>)) = 8
       \<and> be_value (be_bytes 8 (nat \<lfloor>now / of_int time_step\<rfloor>)) = nat \<lfloor>now / of_int time_step\<rfloor>
       \<and> base32_decode uc (ascii ''GEZDGNBVGY3TQOJQGEZDGNBVGY3TQOJQ'') =
           Inr [49, 50, 51, 52, 53, 54, 55, 56, 57, 48, 49, 50, 51, 52, 53, 54, 55, 56, 57, 48]
       \<and> generate_totp uc (ascii ''GEZDGNBVGY3TQOJQGEZDGNBVGY3TQOJQ'') 8 30 59 = ''94287082''"
proof -
  have g: "generate_totp uc secret digits time_step now = totp_spec key digits time_step now"
    by (simp add: generate_totp_def generate_totp_try_decoded [OF assms])
  have len: "length (totp_spec key digits time_step now) = digits"
    by (simp add: totp_spec_def Let_def length_decimal_fixed)
  define c where "c = \<lfloor>now / of_int time_step\<rfloor>"
  from assms(5) have "c < 2 ^ 64" by (simp only: c_def)
  then have "nat c < 256 ^ 8" by simp
  then have "nat \<lfloor>now / of_int time_step\<rfloor> < 256 ^ 8" by (simp only: c_def)
  then have v: "be_value (be_bytes 8 (nat \<lfloor>now / of_int time_step\<rfloor>))
      = nat \<lfloor>now / of_int time_step\<rfloor>"
    by (rule be_value_be_bytes)
  have k: "generate_totp uc (ascii ''GEZDGNBVGY3TQOJQGEZDGNBVGY3TQOJQ'') 8 30 59 = ''94287082''"
    by (simp only: generate_totp_def kat_generate_totp_try sum.case)
  have l8: "length (be_bytes 8 (nat \<lfloor>now / of_int time_step\<rfloor>)) = 8"
    by (rule length_be_bytes)
  from g len have len': "length (generate_totp uc secret digits time_step now) = digits"
    by simp
  from g len' l8 v kat_decode [of uc] k show ?thesis by (intro conjI)
qed

theorem generate_totp_meets_spec_witness:
  "base32_decode uc_plain (ascii ''MZXW6'') = Inr [102, 111, 111, 0, 0]
   \<and> (1::nat) \<le> 6 \<and> (1::int) \<le> 30 \<and> (0::real) \<le> 59 \<and> \<lfloor>(59::real) / of_int 30\<rfloor> < 2 ^ 64
   \<and> generate_totp uc_plain (ascii ''MZXW6'') 6 30 59 = totp_spec [102, 111, 111, 0, 0] 6 30 59
   \<and> length (generate_totp uc_plain (ascii ''MZXW6'') 6 30 59) = 6
   \<and> generate_totp uc_plain (ascii ''GEZDGNBVGY3TQOJQGEZDGNBVGY3TQOJQ'') 8 30 59 = ''94287082''"
proof -
  have d: "base32_decode uc_plain (ascii ''MZXW6'') = Inr [102, 111, 111, 0, 0]" by code_simp
  have h: "(1::nat) \<le> 6" "(1::int) \<le> 30" "(0::real) \<le> 59" "\<lfloor>(59::real) / of_int 30\<rfloor> < 2 ^ 64"
    by simp_all
  note r = generate_totp_meets_spec [OF d h]
  from r have a: "generate_totp uc_plain (ascii ''MZXW6'') 6 30 59 = totp_spec [102, 111, 111, 0, 0] 6 30 59"
    by (rule conjunct1)
  from r have b: "length (generate_totp uc_plain (ascii ''MZXW6'') 6 30 59) = 6"
    by blast
  from r have c: "generate_totp uc_plain (ascii ''GEZDGNBVGY3TQOJQGEZDGNBVGY3TQOJQ'') 8 30 59 = ''94287082''"
    by blast
  from d h a b c show ?thesis by (intro conjI)
qed

text \<open>
  Claim C3, as stated, fails: for a secret that does not decode, \<open>generate_totp\<close> does
  not fail with a failure value of its own; it returns a string, the text \<open>ERROR\<close>.
\<close>

theorem generate_totp_undecodable_counterexample:
  "base32_decode uc_plain (ascii ''1'') = Inl (InvalidBase32Character 49)
   \<and> generate_totp uc_plain (ascii ''1'') 6 30 59 = ''ERROR''"
  by (simp add: generate_totp_def generate_totp_try_def decode_1_fails)

text \<open>
  Claim C3, amended. For every secret that does not decode, \<open>generate_totp\<close> returns the
  sentinel string \<open>ERROR\<close> in place of a code. A caller can still tell it from a real
  code: whenever the body of the function completes, the code it returns is not the
  text \<open>ERROR\<close>.
\<close>

theorem generate_totp_undecodable:
  "(base32_decode uc secret = Inl e \<longrightarrow> generate_totp uc secret digits time_step now = ''ERROR'')
   \<and> (generate_totp_try uc secret digits time_step now = Inr code \<longrightarrow> code \<noteq> ''ERROR'')"
proof (intro conjI impI)
  assume "base32_decode uc secret = Inl e"
  then show "generate_totp uc secret digits time_step now = ''ERROR''"
    by (simp add: generate_totp_def generate_totp_try_def)
next
  assume r: "generate_totp_try uc secret digits time_step now = Inr code"
  then obtain m :: int where m: "0 \<le> m" and code: "code = zfill digits (py_str m)"
    by (rule generate_totp_try_code)
  have "py_str m = str_nat (nat m)" using m by (simp add: py_str_def)
  then have c: "code = replicate (digits - length (str_nat (nat m))) (CHR ''0'') @ str_nat (nat m)"
    by (simp add: code zfill_str_nat)
  have "CHR ''E'' \<notin> set code"
  proof
    assume "CHR ''E'' \<in> set code"
    then have "CHR ''E'' \<in> set (str_nat (nat m))" by (auto simp: c)
    then obtain d where d: "d < 10" "CHR ''E'' = digit_char d" using str_nat_digits by blast
    then have "(of_char (CHR ''E'') :: nat) = 48 + d" by (simp add: of_char_digit_char)
    with d(1) show False by simp
  qed
  then show "code \<noteq> ''ERROR''" by auto
qed

theorem generate_totp_undecodable_witness:
  "base32_decode uc_plain (ascii ''M 1'') = Inl (InvalidBase32Character 49)
   \<and> generate_totp uc_plain (ascii ''M 1'') 6 30 59 = ''ERROR''
   \<and> generate_totp_try uc_plain (ascii ''GEZDGNBVGY3TQOJQGEZDGNBVGY3TQOJQ'') 8 30 59 = Inr ''94287082''
   \<and> ''94287082'' \<noteq> ''ERROR''"
proof -
  have d: "base32_decode uc_plain (ascii ''M 1'') = Inl (InvalidBase32Character 49)" by code_simp
  note t = kat_generate_totp_try [of uc_plain]
  from generate_totp_undecodable [of uc_plain "ascii ''M 1''" "InvalidBase32Character 49" 6 30 59]
    d
  have a: "generate_totp uc_plain (ascii ''M 1'') 6 30 59 = ''ERROR''" by blast
  from generate_totp_undecodable
    [of uc_plain "ascii ''GEZDGNBVGY3TQOJQGEZDGNBVGY3TQOJQ''" _ 8 30 59 "''94287082''"] t
  have b: "''94287082'' \<noteq> ''ERROR''" by blast
  from d a t b show ?thesis by (intro conjI)
qed

section \<open>Claim about the refresh clock\<close>

text \<open>
  Claim C8, as stated, fails: the program takes \<^verbatim>\<open>int(time.time())\<close>, which rounds
  towards zero, where the claim takes the floor. Half a second before the epoch the
  program shows 30 seconds left; the claim's formula gives 1.
\<close>

theorem seconds_left_counterexample:
  "seconds_left (- 1 / 2) = 30 \<and> secondsRemaining 30 (- 1 / 2) = 1"
proof -
  have c: "\<lceil>- (1 / 2) :: real\<rceil> = 0" by (rule ceiling_unique) simp_all
  have f: "\<lfloor>- (1 / 2) :: real\<rfloor> = - 1" by (rule floor_unique) simp_all
  show ?thesis
    by (simp add: seconds_left_def secondsRemaining_def py_int_def c f)
qed

text \<open>
  Claim C8, amended. The window is the literal 30 of the program, which has no
  \<open>timeStepSeconds\<close> here. For every clock reading \<open>t\<close> the seconds left are
  \<open>30 - (trunc(t) mod 30)\<close>, where \<open>trunc\<close> rounds towards zero; they lie between 1 and
  30 and are 30 exactly when \<open>trunc(t) mod 30 = 0\<close>. From the epoch on (\<open>t \<ge> 0\<close>), where
  \<open>trunc\<close> is the floor, this is the specification's formula at window 30.
\<close>

theorem seconds_left_window:
  "seconds_left t = 30 - ((if 0 \<le> t then \<lfloor>t\<rfloor> else - \<lfloor>- t\<rfloor>) mod 30)
   \<and> 1 \<le> seconds_left t
   \<and> seconds_left t \<le> 30
   \<and> (seconds_left t = 30 \<longleftrightarrow> (if 0 \<le> t then \<lfloor>t\<rfloor> else - \<lfloor>- t\<rfloor>) mod 30 = 0)
   \<and> (0 \<le> t \<longrightarrow> seconds_left t = secondsRemaining 30 t)"
proof -
  have p: "py_int t = (if 0 \<le> t then \<lfloor>t\<rfloor> else - \<lfloor>- t\<rfloor>)"
    by (simp add: py_int_def ceiling_def)
  have lo: "0 \<le> py_int t mod 30" by simp
  have hi: "py_int t mod 30 < 30" by simp
  have "seconds_left t = 30 - (py_int t mod 30)" by (simp add: seconds_left_def)
  moreover have "0 \<le> t \<longrightarrow> seconds_left t = secondsRemaining 30 t"
    by (simp add: seconds_left_def secondsRemaining_def py_int_def)
  ultimately show ?thesis
    using lo hi unfolding p by simp
qed

theorem seconds_left_window_witness:
  "(0::real) \<le> 119 / 2 \<and> seconds_left (119 / 2) = 1 \<and> secondsRemaining 30 (119 / 2) = 1
   \<and> seconds_left 60 = 30"
proof -
  have a: "secondsRemaining 30 (119 / 2) = 1" by (simp add: secondsRemaining_def)
  have b: "secondsRemaining 30 60 = 30" by (simp add: secondsRemaining_def)
  from seconds_left_window [of "119 / 2"] seconds_left_window [of 60] a b
  show ?thesis by simp
qed

section \<open>Claims about the secret store\<close>

text \<open>
  Claim C4, at an input where the program departs from it. The store invariant (every
  stored record's secret decodes) holds in the empty store and is kept by
  \<open>add_verifier\<close>, \<open>delete_verifier\<close> and \<open>clear_all\<close> (the three lemmas above), but
  \<open>import_data\<close> checks only that each item is an object with both keys: importing a
  record whose secret is \<open>1\<close> puts it into the store and onto the disk.
\<close>

theorem import_data_breaks_store_invariant:
  "store_ok uc (init_app Absent)
   \<and> \<not> store_ok uc (snd (import_data
          (Some (Stored (JList [JDict [(ascii ''name'', JStr (ascii ''x'')),
                                        (ascii ''key'', JStr (ascii ''1''))]])))
          True Written (init_app Absent)))"
proof -
  let ?r = "JDict [(ascii ''name'', JStr (ascii ''x'')), (ascii ''key'', JStr (ascii ''1''))]"
  have shape: "list_all has_name_and_key [?r]"
    by (simp add: has_name_and_key_def ascii_def)
  have "verifiers (init_app Absent\<lparr>verifiers := JList [?r]\<rparr>) = JList [?r]" by simp
  then have "after_save (save_verifiers Written (init_app Absent\<lparr>verifiers := JList [?r]\<rparr>))
      = (Inr None, init_app Absent\<lparr>verifiers := JList [?r], data_file := Stored (JList [?r])\<rparr>)"
    using shape by (simp add: after_save_written)
  then have "verifiers (snd (import_data (Some (Stored (JList [?r]))) True Written (init_app Absent)))
      = JList [?r]"
    using shape by (simp add: import_data_def)
  moreover have "\<not> secret_decodes uc ?r"
    by (simp add: secret_decodes_def decode_1_fails) (simp add: ascii_def)
  ultimately have "\<not> store_ok uc (snd (import_data (Some (Stored (JList [?r]))) True Written
      (init_app Absent)))"
    by (simp add: store_ok_def)
  with store_ok_init_absent [of uc] show ?thesis by (intro conjI)
qed

text \<open>
  Claim C5, at an input where the program departs from it. A record with an empty name
  and an undecodable secret passes the import validation: the import is committed, the
  success dialog is shown, and memory and disk hold the record.
\<close>

theorem import_data_commits_invalid_record:
  "import_data
     (Some (Stored (JList [JDict [(ascii ''name'', JStr []), (ascii ''key'', JStr (ascii ''1''))]])))
     True Written \<lparr>verifiers = JList [], data_file = Absent\<rparr>
   = (Some Showinfo,
      \<lparr>verifiers = JList [JDict [(ascii ''name'', JStr []), (ascii ''key'', JStr (ascii ''1''))]],
       data_file = Stored (JList [JDict [(ascii ''name'', JStr []),
                                         (ascii ''key'', JStr (ascii ''1''))]])\<rparr>)"
proof -
  let ?r = "JDict [(ascii ''name'', JStr []), (ascii ''key'', JStr (ascii ''1''))]"
  let ?st = "\<lparr>verifiers = JList [], data_file = Absent\<rparr>"
  have shape: "list_all has_name_and_key [?r]"
    by (simp add: has_name_and_key_def ascii_def)
  have "verifiers (?st\<lparr>verifiers := JList [?r]\<rparr>) = JList [?r]" by simp
  then have "after_save (save_verifiers Written (?st\<lparr>verifiers := JList [?r]\<rparr>))
      = (Inr None, ?st\<lparr>verifiers := JList [?r], data_file := Stored (JList [?r])\<rparr>)"
    using shape by (simp add: after_save_written)
  then show ?thesis
    using shape by (simp add: import_data_def)
qed

text \<open>
  Claim C6, as stated, fails: when the data file exists but cannot be opened or parsed,
  \<open>load_verifiers\<close> does not fail; it shows a warning and returns the empty list.
\<close>

theorem load_verifiers_unreadable_counterexample:
  "snd (load_verifiers Unreadable) = JList []"
  by (simp add: load_verifiers_def)

text \<open>
  Claim C6, amended. \<open>load_verifiers\<close> returns the persisted value exactly as parsed (in
  its original order, with no check of its shape), and the empty list when there is no
  data file; when the file exists but cannot be opened or parsed it shows a warning and
  returns the empty list as well. Loading leaves the file as it is.
\<close>

theorem load_verifiers_results:
  "load_verifiers (Stored v) = (None, v)
   \<and> load_verifiers Absent = (None, JList [])
   \<and> load_verifiers Unreadable = (Some Showwarning, JList [])
   \<and> data_file (init_app file) = file"
  by (simp add: load_verifiers_def init_app_def)

text \<open>
  Claim C7, as stated, fails: with an index outside the list, \<open>delete_verifier\<close> does not
  fail. It returns normally, shows nothing, and leaves the state as it is.
\<close>

theorem delete_verifier_out_of_range_counterexample:
  "delete_verifier 5 Written
     \<lparr>verifiers = JList [JDict [(ascii ''name'', JStr (ascii ''a'')),
                                 (ascii ''key'', JStr (ascii ''MZXW6''))]],
      data_file = Absent\<rparr>
   = (Inr None,
      \<lparr>verifiers = JList [JDict [(ascii ''name'', JStr (ascii ''a'')),
                                  (ascii ''key'', JStr (ascii ''MZXW6''))]],
       data_file = Absent\<rparr>)"
  by (simp add: delete_verifier_def py_len_def)

text \<open>
  Claim C7, amended. On a store that is a list of length \<open>n\<close>: with an index outside
  \<open>[0, n)\<close>, \<open>delete_verifier\<close> is a silent no-op (no failure is raised or shown, memory
  and disk stay the same); with an index inside, it removes exactly the record at that
  position, keeps the others in order, and writes the shortened list to the data file
  when the write goes through; the call then returns normally when every remaining
  record is an object with a name and a key.
\<close>

theorem delete_verifier_by_index:
  assumes "verifiers st = JList xs"
  shows "(\<not> (0 \<le> i \<and> i < int (length xs)) \<longrightarrow> delete_verifier i w st = (Inr None, st))
       \<and> (0 \<le> i \<and> i < int (length xs) \<longrightarrow>
            (\<exists>r st' ys. delete_verifier i w st = (r, st') \<and> verifiers st' = JList ys
               \<and> Suc (length ys) = length xs
               \<and> (\<forall>j < nat i. ys ! j = xs ! j)
               \<and> (\<forall>j. nat i \<le> j \<and> j < length ys \<longrightarrow> ys ! j = xs ! Suc j)
               \<and> (w = Written \<longrightarrow> data_file st' = Stored (JList ys))
               \<and> (w = Written \<and> list_all has_name_and_key ys \<longrightarrow> r = Inr None)))"
proof (intro conjI impI)
  assume "\<not> (0 \<le> i \<and> i < int (length xs))"
  with assms show "delete_verifier i w st = (Inr None, st)"
    by (auto simp: delete_verifier_def py_len_def)
next
  assume inside: "0 \<le> i \<and> i < int (length xs)"
  let ?ys = "take (nat i) xs @ drop (Suc (nat i)) xs"
  let ?st = "st\<lparr>verifiers := JList ?ys\<rparr>"
  let ?res = "after_save (save_verifiers w ?st)"
  from inside have lt: "nat i < length xs" by linarith
  have run: "delete_verifier i w st = (fst ?res, snd ?res)"
    using assms inside by (simp add: delete_verifier_def py_len_def prod_eq_iff)
  have vs: "verifiers (snd ?res) = JList ?ys" by simp
  have len: "Suc (length ?ys) = length xs" using lt by simp
  have before: "\<forall>j < nat i. ?ys ! j = xs ! j"
    using lt by (simp add: nth_append)
  have after: "\<forall>j. nat i \<le> j \<and> j < length ?ys \<longrightarrow> ?ys ! j = xs ! Suc j"
  proof (intro allI impI)
    fix j assume j: "nat i \<le> j \<and> j < length ?ys"
    have "min (length xs) (nat i) = nat i" using lt by simp
    then have "?ys ! j = drop (Suc (nat i)) xs ! (j - nat i)"
      using j by (simp add: nth_append)
    also have "\<dots> = xs ! (Suc (nat i) + (j - nat i))"
      using j lt by (intro nth_drop) simp
    also have "Suc (nat i) + (j - nat i) = Suc j" using j by simp
    finally show "?ys ! j = xs ! Suc j" .
  qed
  have disk: "w = Written \<longrightarrow> data_file (snd ?res) = Stored (JList ?ys)"
    by (simp add: save_verifiers_def)
  have quiet: "w = Written \<and> list_all has_name_and_key ?ys \<longrightarrow> fst ?res = Inr None"
  proof
    assume a: "w = Written \<and> list_all has_name_and_key ?ys"
    have "verifiers ?st = JList ?ys" by simp
    with a show "fst ?res = Inr None" by (simp add: after_save_written)
  qed
  from run vs len before after disk quiet
  show "\<exists>r st' ys. delete_verifier i w st = (r, st') \<and> verifiers st' = JList ys
          \<and> Suc (length ys) = length xs
          \<and> (\<forall>j < nat i. ys ! j = xs ! j)
          \<and> (\<forall>j. nat i \<le> j \<and> j < length ys \<longrightarrow> ys ! j = xs ! Suc j)
          \<and> (w = Written \<longrightarrow> data_file st' = Stored (JList ys))
          \<and> (w = Written \<and> list_all has_name_and_key ys \<longrightarrow> r = Inr None)"
    by blast
qed

theorem delete_verifier_by_index_witness:
  "delete_verifier 3 Written
     \<lparr>verifiers = JList [JDict [(ascii ''name'', JStr (ascii ''a'')), (ascii ''key'', JStr (ascii ''MZXW6''))],
                         JDict [(ascii ''name'', JStr (ascii ''b'')), (ascii ''key'', JStr (ascii ''MY''))],
                         JDict [(ascii ''name'', JStr (ascii ''c'')), (ascii ''key'', JStr (ascii ''GEZDG''))]],
      data_file = Absent\<rparr>
     = (Inr None,
        \<lparr>verifiers = JList [JDict [(ascii ''name'', JStr (ascii ''a'')), (ascii ''key'', JStr (ascii ''MZXW6''))],
                            JDict [(ascii ''name'', JStr (ascii ''b'')), (ascii ''key'', JStr (ascii ''MY''))],
                            JDict [(ascii ''name'', JStr (ascii ''c'')), (ascii ''key'', JStr (ascii ''GEZDG''))]],
         data_file = Absent\<rparr>)
   \<and> delete_verifier 1 Written
     \<lparr>verifiers = JList [JDict [(ascii ''name'', JStr (ascii ''a'')), (ascii ''key'', JStr (ascii ''MZXW6''))],
                         JDict [(ascii ''name'', JStr (ascii ''b'')), (ascii ''key'', JStr (ascii ''MY''))],
                         JDict [(ascii ''name'', JStr (ascii ''c'')), (ascii ''key'', JStr (ascii ''GEZDG''))]],
      data_file = Absent\<rparr>
     = (Inr None,
        \<lparr>verifiers = JList [JDict [(ascii ''name'', JStr (ascii ''a'')), (ascii ''key'', JStr (ascii ''MZXW6''))],
                            JDict [(ascii ''name'', JStr (ascii ''c'')), (ascii ''key'', JStr (ascii ''GEZDG''))]],
         data_file = Stored (JList
                           [JDict [(ascii ''name'', JStr (ascii ''a'')), (ascii ''key'', JStr (ascii ''MZXW6''))],
                            JDict [(ascii ''name'', JStr (ascii ''c'')), (ascii ''key'', JStr (ascii ''GEZDG''))]])\<rparr>)"
proof -
  let ?a = "JDict [(ascii ''name'', JStr (ascii ''a'')), (ascii ''key'', JStr (ascii ''MZXW6''))]"
  let ?b = "JDict [(ascii ''name'', JStr (ascii ''b'')), (ascii ''key'', JStr (ascii ''MY''))]"
  let ?c = "JDict [(ascii ''name'', JStr (ascii ''c'')), (ascii ''key'', JStr (ascii ''GEZDG''))]"
  let ?st = "\<lparr>verifiers = JList [?a, ?b, ?c], data_file = Absent\<rparr>"
  have v: "verifiers ?st = JList [?a, ?b, ?c]" by simp
  have out: "\<not> (0 \<le> (3::int) \<and> (3::int) < int (length [?a, ?b, ?c]))" by simp
  have inside: "0 \<le> (1::int) \<and> (1::int) < int (length [?a, ?b, ?c])" by simp
  from delete_verifier_by_index [OF v, of 3 Written] out
  have a: "delete_verifier 3 Written ?st = (Inr None, ?st)" by blast
  from delete_verifier_by_index [OF v, of 1 Written] inside
  obtain r st' ys where run: "delete_verifier 1 Written ?st = (r, st')"
    and ys: "verifiers st' = JList ys"
    and quiet: "Written = Written \<and> list_all has_name_and_key ys \<longrightarrow> r = Inr None" by blast
  have st': "st' = \<lparr>verifiers = JList [?a, ?c], data_file = Stored (JList [?a, ?c])\<rparr>"
    using run
    by (simp add: delete_verifier_def py_len_def save_verifiers_def after_save_def
        split: sum.splits)
  have "list_all has_name_and_key [?a, ?c]" by (simp add: has_name_and_key_def ascii_def)
  with ys quiet st' have "r = Inr None" by simp
  with run st' a show ?thesis by simp
qed

text \<open>
  Claim C9, as stated, fails: the file is truncated and rewritten in place, so a write
  that stops after the truncation leaves a file that a later load cannot parse. The load
  then returns the empty list, which is neither the previous nor the new contents.
\<close>

theorem save_verifiers_interrupted_counterexample:
  "snd (load_verifiers (data_file (snd (save_verifiers WriteFailed
      \<lparr>verifiers = JList [JStr (ascii ''new'')],
       data_file = Stored (JList [JStr (ascii ''old'')])\<rparr>)))) = JList []
   \<and> JList [] \<noteq> JList [JStr (ascii ''old'')] \<and> JList [] \<noteq> JList [JStr (ascii ''new'')]"
  by (simp add: save_verifiers_def load_verifiers_def)

text \<open>
  Claim C9, amended. \<open>save_verifiers\<close> rewrites the data file in place, without a
  temporary file or a rename, and never changes the list in memory. When the write goes
  through, the file holds the full current list, in order and with its field names, and
  a later load returns exactly that list. When the file cannot be opened, the previous
  contents remain. When the write stops after the truncation, the file is left
  unparseable, and a later load returns the empty list with a warning.
\<close>

theorem save_verifiers_outcomes:
  "save_verifiers Written st = (True, st\<lparr>data_file := Stored (verifiers st)\<rparr>)
   \<and> load_verifiers (data_file (snd (save_verifiers Written st))) = (None, verifiers st)
   \<and> save_verifiers OpenFailed st = (False, st)
   \<and> save_verifiers WriteFailed st = (False, st\<lparr>data_file := Unreadable\<rparr>)
   \<and> load_verifiers (data_file (snd (save_verifiers WriteFailed st))) = (Some Showwarning, JList [])
   \<and> verifiers (snd (save_verifiers w st)) = verifiers st"
proof -
  have "verifiers (snd (save_verifiers w st)) = verifiers st"
    by (cases w) (simp_all add: save_verifiers_def)
  then show ?thesis
    by (simp add: save_verifiers_def load_verifiers_def)
qed

end
